theory Spec2Isabelle
  imports Main "HOL-Library.Word"
begin

section \<open>Data model of the GCS backend (internal/vfs/gcsfs.go)\<close>

text \<open>
  The attributes of one listing entry, as the adapter reads them from
  \<^verbatim>\<open>storage.ObjectAttrs\<close>: \<open>Deleted\<close> holds whether the deletion time is non-zero,
  \<open>Updated\<close> is the update time in milliseconds, \<open>Size\<close> is Go's int64.
\<close>

record ObjectAttrs =
  Name :: string
  Prefix :: string
  Size :: "64 word"
  Deleted :: bool
  Updated :: int
  ContentType :: string
  ContentEncoding :: string
  Generation :: int

text \<open>The errors the adapter returns or receives from the storage client.\<close>

datatype error =
    ErrObjectNotExist
  | ErrBucketNotExist
  | GoogleApiError nat
  | ErrVfsUnsupported
  | ErrNonEmptyRename string
  | ErrNonEmptyRemove string
  | ErrRangeGzip "64 word"
  | ErrOther string

text \<open>
  A paginated listing as \<^verbatim>\<open>pager.NextPage\<close> delivers it: a page fails, or it carries
  its objects and either the next page (non-empty page token) or nothing (empty token).
\<close>

datatype pager = PageErr error | Page "ObjectAttrs list" "pager option"

text \<open>
  Modelled from the spec: \<^verbatim>\<open>dirMimeType\<close> is declared outside this file. The spec
  speaks of a fixed content type that marks a directory; the properties below do not
  depend on its value.
\<close>

definition dirMimeType :: string where
  "dirMimeType = ''inode/directory''"

definition HasSuffix :: "string \<Rightarrow> string \<Rightarrow> bool" where
  "HasSuffix s suf = (length suf \<le> length s \<and> drop (length s - length suf) s = suf)"

definition HasPrefix :: "string \<Rightarrow> string \<Rightarrow> bool" where
  "HasPrefix s pre = (take (length pre) s = pre)"

definition TrimPrefix :: "string \<Rightarrow> string \<Rightarrow> string" where
  "TrimPrefix s pre = (if HasPrefix s pre then drop (length pre) s else s)"

definition TrimSuffix :: "string \<Rightarrow> string \<Rightarrow> string" where
  "TrimSuffix s suf = (if HasSuffix s suf then take (length s - length suf) s else s)"

section \<open>GetDirSize\<close>

text \<open>The body of the inner loop of \<^verbatim>\<open>GetDirSize\<close> for one entry.\<close>

definition dirSizeSkips :: "ObjectAttrs \<Rightarrow> bool" where
  "dirSizeSkips attrs =
     (if Deleted attrs then True
      else let isDir = (HasSuffix (Name attrs) ''/'' \<or> ContentType attrs = dirMimeType)
           in isDir \<and> Size attrs = 0)"

fun dirSizeObjects :: "ObjectAttrs list \<Rightarrow> 64 word \<times> 64 word \<Rightarrow> 64 word \<times> 64 word" where
  "dirSizeObjects [] acc = acc"
| "dirSizeObjects (attrs # rest) (numFiles, totalSize) =
     (if dirSizeSkips attrs then dirSizeObjects rest (numFiles, totalSize)
      else dirSizeObjects rest (numFiles + 1, totalSize + Size attrs))"

fun dirSizePages :: "pager \<Rightarrow> 64 word \<times> 64 word \<Rightarrow> 64 word \<times> 64 word \<times> error option" where
  "dirSizePages (PageErr e) (numFiles, totalSize) = (numFiles, totalSize, Some e)"
| "dirSizePages (Page objects next) acc =
     (let acc' = dirSizeObjects objects acc in
      case next of
        None \<Rightarrow> (fst acc', snd acc', None)
      | Some p \<Rightarrow> dirSizePages p acc')"

definition GetDirSize :: "pager \<Rightarrow> 64 word \<times> 64 word \<times> error option" where
  "GetDirSize listing = dirSizePages listing (0, 0)"

text \<open>
  What a listing delivers before it stops: the entries of all pages up to the first
  failing page, and the error of that page if there is one.
\<close>

fun pagerObjects :: "pager \<Rightarrow> ObjectAttrs list" where
  "pagerObjects (PageErr e) = []"
| "pagerObjects (Page objects next) =
     (case next of None \<Rightarrow> objects | Some p \<Rightarrow> objects @ pagerObjects p)"

fun pagerError :: "pager \<Rightarrow> error option" where
  "pagerError (PageErr e) = Some e"
| "pagerError (Page objects next) =
     (case next of None \<Rightarrow> None | Some p \<Rightarrow> pagerError p)"

section \<open>File information and name resolution\<close>

record FileInfo =
  fi_name :: string
  fi_isDir :: bool
  fi_size :: "64 word"
  fi_modTime :: int

text \<open>
  Modelled from the spec: \<^verbatim>\<open>NewFileInfo\<close> is declared outside this file. The spec's
  FileInfo is an immutable value of name, directory flag, size and modification time
  (the symlink flag is always false for this backend and is left out).
\<close>

definition NewFileInfo :: "string \<Rightarrow> bool \<Rightarrow> 64 word \<Rightarrow> int \<Rightarrow> FileInfo" where
  "NewFileInfo name isDirectory sizeInBytes modTime =
     \<lparr>fi_name = name, fi_isDir = isDirectory, fi_size = sizeInBytes, fi_modTime = modTime\<rparr>"

definition resolve :: "string \<Rightarrow> string \<Rightarrow> string \<Rightarrow> string \<times> bool" where
  "resolve name prefix contentType =
     (let result = TrimPrefix name prefix;
          isDir = HasSuffix result ''/'';
          result = (if isDir then TrimSuffix result ''/'' else result);
          isDir = (if contentType = dirMimeType then True else isDir)
      in (result, isDir))"

definition getPrefix :: "string \<Rightarrow> string" where
  "getPrefix name =
     (if name \<noteq> [] \<and> name \<noteq> ''.'' \<and> name \<noteq> ''/'' then
        (let prefix = TrimPrefix name ''/'' in
         if \<not> HasSuffix prefix ''/'' then prefix @ ''/'' else prefix)
      else [])"

section \<open>ReadDir\<close>

text \<open>
  One iteration of the inner loop of \<^verbatim>\<open>ReadDir\<close>: the accumulator is the result
  slice and the \<^verbatim>\<open>prefixes\<close> map. Times are milliseconds since the epoch, so
  \<^verbatim>\<open>time.Unix(0, 0)\<close> is 0.
\<close>

definition readDirEntry ::
  "(string \<rightharpoonup> int) \<Rightarrow> string \<Rightarrow> ObjectAttrs \<Rightarrow>
   FileInfo list \<times> (string \<rightharpoonup> bool) \<Rightarrow> FileInfo list \<times> (string \<rightharpoonup> bool)" where
  "readDirEntry modTimes prefix attrs acc =
     (let result = fst acc; prefixes = snd acc in
      if Prefix attrs \<noteq> [] then
        (let name = fst (resolve (Prefix attrs) prefix (ContentType attrs)) in
         if name = [] then (result, prefixes)
         else if prefixes name \<noteq> None then (result, prefixes)
         else (result @ [NewFileInfo name True 0 0], prefixes(name \<mapsto> True)))
      else
        (let name = fst (resolve (Name attrs) prefix (ContentType attrs));
             isDir = snd (resolve (Name attrs) prefix (ContentType attrs)) in
         if name = [] then (result, prefixes)
         else if Deleted attrs then (result, prefixes)
         else if isDir \<and> prefixes name \<noteq> None then (result, prefixes)
         else
           (let prefixes' = (if isDir then prefixes(name \<mapsto> True) else prefixes);
                modTime = (case modTimes name of Some t \<Rightarrow> t | None \<Rightarrow> Updated attrs)
            in (result @ [NewFileInfo name isDir (Size attrs) modTime], prefixes'))))"

fun readDirObjects ::
  "(string \<rightharpoonup> int) \<Rightarrow> string \<Rightarrow> ObjectAttrs list \<Rightarrow>
   FileInfo list \<times> (string \<rightharpoonup> bool) \<Rightarrow> FileInfo list \<times> (string \<rightharpoonup> bool)" where
  "readDirObjects modTimes prefix [] acc = acc"
| "readDirObjects modTimes prefix (attrs # rest) acc =
     readDirObjects modTimes prefix rest (readDirEntry modTimes prefix attrs acc)"

fun readDirPages ::
  "(string \<rightharpoonup> int) \<Rightarrow> string \<Rightarrow> pager \<Rightarrow>
   FileInfo list \<times> (string \<rightharpoonup> bool) \<Rightarrow> FileInfo list \<times> error option" where
  "readDirPages modTimes prefix (PageErr e) acc = (fst acc, Some e)"
| "readDirPages modTimes prefix (Page objects next) acc =
     (let acc' = readDirObjects modTimes prefix objects acc in
      case next of
        None \<Rightarrow> (fst acc', None)
      | Some p \<Rightarrow> readDirPages modTimes prefix p acc')"

text \<open>
  \<^verbatim>\<open>ReadDir\<close> over the outcome of \<^verbatim>\<open>getFolderModTimes\<close> and the delimited
  listing of the directory's prefix. \<^verbatim>\<open>SetAttrSelection\<close> is called with a fixed list
  of valid field names and is taken to succeed.
\<close>

definition ReadDir ::
  "(error + (string \<rightharpoonup> int)) \<Rightarrow> pager \<Rightarrow> string \<Rightarrow> FileInfo list \<times> error option" where
  "ReadDir folderModTimes listing dirname =
     (let prefix = getPrefix dirname in
      case folderModTimes of
        Inl e \<Rightarrow> ([], Some e)
      | Inr modTimes \<Rightarrow> readDirPages modTimes prefix listing ([], Map.empty))"

section \<open>Walk\<close>









section \<open>Open\<close>

text \<open>
  What \<^verbatim>\<open>Open\<close> does besides returning: the resources it releases and whether it
  starts the background copy task.
\<close>

datatype openEvent =
    ObjectReaderClosed
  | PipeReaderClosed
  | PipeWriterClosed
  | CancelInvoked
  | CopyTaskStarted

text \<open>
  \<^verbatim>\<open>Open\<close> over the outcomes of its two external calls: \<^verbatim>\<open>pipeat.PipeInDir\<close>
  (an error or none) and \<^verbatim>\<open>NewRangeReader\<close> (an error, or a reader whose attributes
  carry the content encoding). The offset is Go's int64, compared as a signed number.
  The result is the returned error, if any, and the events in order.
\<close>

definition Open :: "error option \<Rightarrow> error + string \<Rightarrow> 64 word \<Rightarrow> error option \<times> openEvent list" where
  "Open pipeInDir rangeReader offset =
     (case pipeInDir of
        Some e \<Rightarrow> (Some e, [])
      | None \<Rightarrow>
          (let (err, events) =
                 (case rangeReader of
                    Inl e \<Rightarrow> (Some e, [])
                  | Inr contentEncoding \<Rightarrow>
                      if 0 < sint offset \<and> contentEncoding = ''gzip''
                      then (Some (ErrRangeGzip offset), [ObjectReaderClosed])
                      else (None, []))
           in case err of
                Some e \<Rightarrow> (Some e, events @ [PipeReaderClosed, PipeWriterClosed, CancelInvoked])
              | None \<Rightarrow> (None, events @ [CopyTaskStarted])))"

section \<open>Paths\<close>

text \<open>
  Go's \<^verbatim>\<open>path.Clean\<close>, \<^verbatim>\<open>path.IsAbs\<close> and \<^verbatim>\<open>path.Join\<close> (standard library),
  by the rules of their documentation: the path is cut at every slash; empty and
  \<^verbatim>\<open>.\<close> elements are dropped; a \<^verbatim>\<open>..\<close> element removes the element before it when
  that is not \<^verbatim>\<open>..\<close>, is dropped at the start of a rooted path, and is kept otherwise;
  an empty result is \<^verbatim>\<open>.\<close>. The stack of kept elements is held in reverse.
\<close>

fun splitSlash :: "string \<Rightarrow> string list" where
  "splitSlash [] = [[]]"
| "splitSlash (c # cs) =
     (if c = CHR ''/'' then [] # splitSlash cs
      else (case splitSlash cs of [] \<Rightarrow> [[c]] | x # xs \<Rightarrow> (c # x) # xs))"

fun joinSlash :: "string list \<Rightarrow> string" where
  "joinSlash [] = []"
| "joinSlash [x] = x"
| "joinSlash (x # y # ys) = x @ ''/'' @ joinSlash (y # ys)"

definition cleanElem :: "bool \<Rightarrow> string list \<Rightarrow> string \<Rightarrow> string list" where
  "cleanElem rooted st e =
     (if e = [] \<or> e = ''.'' then st
      else if e = ''..'' then
        (case st of
           x # xs \<Rightarrow> (if x \<noteq> ''..'' then xs else if rooted then st else e # st)
         | [] \<Rightarrow> (if rooted then [] else [e]))
      else e # st)"

definition IsAbs :: "string \<Rightarrow> bool" where
  "IsAbs p = (p \<noteq> [] \<and> hd p = CHR ''/'')"

definition Clean :: "string \<Rightarrow> string" where
  "Clean p =
     (if p = [] then ''.''
      else
        (let rooted = IsAbs p;
             st = foldl (cleanElem rooted) [] (splitSlash p);
             out = (if rooted then ''/'' else []) @ joinSlash (rev st)
         in if out = [] then ''.'' else out))"

fun joinBuf :: "string \<Rightarrow> string list \<Rightarrow> string" where
  "joinBuf buf [] = buf"
| "joinBuf buf (e # es) =
     (if buf \<noteq> [] \<or> e \<noteq> []
      then joinBuf ((if buf \<noteq> [] then buf @ ''/'' else buf) @ e) es
      else joinBuf buf es)"

definition pathJoin :: "string list \<Rightarrow> string" where
  "pathJoin elem = (if concat elem = [] then [] else Clean (joinBuf [] elem))"

text \<open>The part of the adapter's configuration the path functions read.\<close>

record GCSFs =
  mountPath :: string
  KeyPrefix :: string

definition Join :: "string list \<Rightarrow> string" where
  "Join elem = TrimPrefix (pathJoin elem) ''/''"

definition GetRelativePath :: "GCSFs \<Rightarrow> string \<Rightarrow> string" where
  "GetRelativePath fs name =
     (let rel = Clean name;
          rel = (if rel = ''.'' then [] else rel);
          rel = (if \<not> IsAbs rel then ''/'' @ rel else rel);
          rel = (if KeyPrefix fs \<noteq> [] then
                   (let rel = (if \<not> HasPrefix rel (''/'' @ KeyPrefix fs) then ''/'' else rel)
                    in Clean (''/'' @ TrimPrefix rel (''/'' @ KeyPrefix fs)))
                 else rel);
          rel = (if mountPath fs \<noteq> [] then pathJoin [mountPath fs, rel] else rel)
      in rel)"

definition ResolvePath :: "GCSFs \<Rightarrow> string \<Rightarrow> string" where
  "ResolvePath fs virtualPath =
     (let virtualPath = (if mountPath fs \<noteq> [] then TrimPrefix virtualPath (mountPath fs)
                         else virtualPath);
          virtualPath = (if \<not> IsAbs virtualPath then Clean (''/'' @ virtualPath)
                         else virtualPath)
      in Join [KeyPrefix fs, TrimPrefix virtualPath ''/''])"


section \<open>The bucket and the calls of the adapter\<close>

text \<open>
  The adapter talks to the storage service and to the metadata plugin. The world holds
  the bucket (its objects in listing order), the plugin's modification times by
  absolute path, whether a plugin is present, the generation the service gives to the
  next object it writes, the calls made so far in order, each with the error it was
  answered with (none on success), and for every call position the error the service
  answers with there whatever the bucket holds, if any (a timeout, a permission
  failure): the adapter must behave for every such answer.
\<close>

datatype precondition = NoCondition | GenerationMatch int | DoesNotExist

datatype call =
    HeadObject string
  | ListObjects string bool nat
  | WriteObject string precondition string
  | CopyObject string string precondition
  | DeleteObject string precondition
  | GetFolderModTimes string
  | SetModificationTime string int
  | RemoveMetadata string

record world =
  bucket :: "ObjectAttrs list"
  overlay :: "string \<rightharpoonup> int"
  hasMetadater :: bool
  nextGeneration :: int
  contentTypeOf :: "string \<Rightarrow> string"
  calls :: "(call \<times> error option) list"
  faults :: "nat \<Rightarrow> error option"

definition fault :: "world \<Rightarrow> error option" where
  "fault w = faults w (length (calls w))"

definition logCall :: "call \<Rightarrow> error option \<Rightarrow> world \<Rightarrow> world" where
  "logCall c answer w = w\<lparr>calls := calls w @ [(c, answer)]\<rparr>"

definition lookupObject :: "ObjectAttrs list \<Rightarrow> string \<Rightarrow> ObjectAttrs option" where
  "lookupObject objs name = find (\<lambda>a. Name a = name \<and> \<not> Deleted a) objs"

fun strLess :: "string \<Rightarrow> string \<Rightarrow> bool" where
  "strLess [] [] = False"
| "strLess [] (y # ys) = True"
| "strLess (x # xs) [] = False"
| "strLess (x # xs) (y # ys) =
     ((of_char x :: nat) < of_char y \<or> (x = y \<and> strLess xs ys))"

fun putObject :: "ObjectAttrs \<Rightarrow> ObjectAttrs list \<Rightarrow> ObjectAttrs list" where
  "putObject a [] = [a]"
| "putObject a (b # bs) =
     (if Name a = Name b then a # bs
      else if strLess (Name a) (Name b) then a # b # bs
      else b # putObject a bs)"

definition preconditionHolds :: "precondition \<Rightarrow> ObjectAttrs option \<Rightarrow> bool" where
  "preconditionHolds c existing =
     (case c of
        NoCondition \<Rightarrow> True
      | DoesNotExist \<Rightarrow> existing = None
      | GenerationMatch g \<Rightarrow> (case existing of None \<Rightarrow> False | Some a \<Rightarrow> Generation a = g))"

text \<open>
  The service's answers. A listing of a prefix returns the objects whose key starts with
  it; with the delimiter, the objects with a further slash in the key are replaced by
  one entry per common prefix, after the objects. The entries come in pages of the
  requested size.
\<close>

definition prefixEntry :: "string \<Rightarrow> ObjectAttrs" where
  "prefixEntry p =
     \<lparr>Name = [], Prefix = p, Size = 0, Deleted = False, Updated = 0,
      ContentType = [], ContentEncoding = [], Generation = 0\<rparr>"

definition listEntries :: "ObjectAttrs list \<Rightarrow> string \<Rightarrow> bool \<Rightarrow> ObjectAttrs list" where
  "listEntries objs prefix delimiter =
     (let matching = filter (\<lambda>a. HasPrefix (Name a) prefix) objs;
          deeper = (\<lambda>a. CHR ''/'' \<in> set (drop (length prefix) (Name a)))
      in if delimiter then
           filter (\<lambda>a. \<not> deeper a) matching @
           map prefixEntry
             (remdups (map (\<lambda>a. prefix @
                               takeWhile (\<lambda>c. c \<noteq> CHR ''/'') (drop (length prefix) (Name a)) @ ''/'')
                           (filter deeper matching)))
         else matching)"

function mkPager :: "nat \<Rightarrow> ObjectAttrs list \<Rightarrow> pager" where
  "mkPager n xs =
     (if n = 0 \<or> length xs \<le> n then Page xs None
      else Page (take n xs) (Some (mkPager n (drop n xs))))"
  by pat_completeness auto
termination
  by (relation "measure (\<lambda>(n, xs). length xs)") auto

declare mkPager.simps [simp del]

definition headObject :: "world \<Rightarrow> string \<Rightarrow> (error + ObjectAttrs) \<times> world" where
  "headObject w name =
     (case fault w of
        Some e \<Rightarrow> (Inl e, logCall (HeadObject name) (Some e) w)
      | None \<Rightarrow>
          (case lookupObject (bucket w) name of
             None \<Rightarrow> (Inl ErrObjectNotExist, logCall (HeadObject name) (Some ErrObjectNotExist) w)
           | Some a \<Rightarrow> (Inr a, logCall (HeadObject name) None w)))"

definition listObjects :: "world \<Rightarrow> string \<Rightarrow> bool \<Rightarrow> nat \<Rightarrow> pager \<times> world" where
  "listObjects w prefix delimiter pageSize =
     (case fault w of
        Some e \<Rightarrow> (PageErr e, logCall (ListObjects prefix delimiter pageSize) (Some e) w)
      | None \<Rightarrow>
          (mkPager pageSize (listEntries (bucket w) prefix delimiter),
           logCall (ListObjects prefix delimiter pageSize) None w))"

definition serviceAnswer :: "world \<Rightarrow> error option \<Rightarrow> error option" where
  "serviceAnswer w refusal = (case fault w of Some e \<Rightarrow> Some e | None \<Rightarrow> refusal)"

definition writeObject ::
  "world \<Rightarrow> string \<Rightarrow> precondition \<Rightarrow> string \<Rightarrow> error option \<times> world" where
  "writeObject w name c contentType =
     (let answer = serviceAnswer w
            (if \<not> preconditionHolds c (lookupObject (bucket w) name)
             then Some (GoogleApiError 412) else None);
          w' = logCall (WriteObject name c contentType) answer w
      in if answer \<noteq> None then (answer, w')
         else (None,
               w'\<lparr>bucket := putObject
                      \<lparr>Name = name, Prefix = [], Size = 0, Deleted = False, Updated = 0,
                       ContentType = contentType, ContentEncoding = [],
                       Generation = nextGeneration w\<rparr> (bucket w),
                   nextGeneration := nextGeneration w + 1\<rparr>))"

definition copyObject ::
  "world \<Rightarrow> string \<Rightarrow> string \<Rightarrow> precondition \<Rightarrow> string \<Rightarrow> error option \<times> world" where
  "copyObject w source target c contentType =
     (let answer = serviceAnswer w
            (case lookupObject (bucket w) source of
               None \<Rightarrow> Some (GoogleApiError 404)
             | Some a \<Rightarrow>
                 if \<not> preconditionHolds c (lookupObject (bucket w) target)
                 then Some (GoogleApiError 412) else None);
          w' = logCall (CopyObject source target c) answer w
      in case (answer, lookupObject (bucket w) source) of
           (None, Some a) \<Rightarrow>
             (None,
              w'\<lparr>bucket := putObject
                     (a\<lparr>Name := target, Generation := nextGeneration w,
                        ContentType := (if contentType \<noteq> [] then contentType
                                        else ContentType a)\<rparr>) (bucket w),
                  nextGeneration := nextGeneration w + 1\<rparr>)
         | _ \<Rightarrow> (answer, w'))"

definition deleteObject :: "world \<Rightarrow> string \<Rightarrow> precondition \<Rightarrow> error option \<times> world" where
  "deleteObject w name c =
     (let answer = serviceAnswer w
            (case lookupObject (bucket w) name of
               None \<Rightarrow> Some ErrObjectNotExist
             | Some a \<Rightarrow>
                 if \<not> preconditionHolds c (Some a) then Some (GoogleApiError 412) else None);
          w' = logCall (DeleteObject name c) answer w
      in if answer \<noteq> None then (answer, w')
         else (None, w'\<lparr>bucket := filter (\<lambda>b. Name b \<noteq> name) (bucket w)\<rparr>))"

text \<open>
  Modelled from the spec: \<^verbatim>\<open>ensureAbsPath\<close> and the plugin calls behind
  \<^verbatim>\<open>plugin.Handler\<close> are declared outside this file. The Metadata Overlay Bridge of the
  spec has \<^verbatim>\<open>setModificationTime(storageID, absolutePath, millis)\<close>,
  \<^verbatim>\<open>removeMetadata(storageID, absolutePath)\<close> and
  \<^verbatim>\<open>getFolderModTimes(storageID, dirname)\<close>, a mapping from the names in the folder to
  milliseconds; each may fail.
\<close>

definition ensureAbsPath :: "string \<Rightarrow> string" where
  "ensureAbsPath name = (if IsAbs name then name else pathJoin [''/'', name])"

definition pluginSetModificationTime :: "world \<Rightarrow> string \<Rightarrow> int \<Rightarrow> error option \<times> world" where
  "pluginSetModificationTime w p t =
     (let answer = serviceAnswer w None;
          w' = logCall (SetModificationTime p t) answer w
      in if answer \<noteq> None then (answer, w')
         else (None, w'\<lparr>overlay := (overlay w)(p \<mapsto> t)\<rparr>))"

definition pluginRemoveMetadata :: "world \<Rightarrow> string \<Rightarrow> error option \<times> world" where
  "pluginRemoveMetadata w p =
     (let answer = serviceAnswer w None;
          w' = logCall (RemoveMetadata p) answer w
      in if answer \<noteq> None then (answer, w')
         else (None, w'\<lparr>overlay := (overlay w)(p := None)\<rparr>))"

definition getFolderModTimes :: "world \<Rightarrow> string \<Rightarrow> (error + (string \<rightharpoonup> int)) \<times> world" where
  "getFolderModTimes w dirname =
     (if \<not> hasMetadater w then (Inr Map.empty, w)
      else
        (case fault w of
           Some e \<Rightarrow> (Inl e, logCall (GetFolderModTimes dirname) (Some e) w)
         | None \<Rightarrow>
             (Inr (\<lambda>name. overlay w (pathJoin [ensureAbsPath dirname, name])),
              logCall (GetFolderModTimes dirname) None w)))"

text \<open>
  Modelled from the spec: \<^verbatim>\<open>updateFileInfoModTime\<close> is declared outside this file.
  By the spec the modification time is overridden with the value of the Metadata
  Overlay when one exists for the name, and overlay calls never abort the operation.
\<close>

definition updateFileInfoModTime :: "world \<Rightarrow> string \<Rightarrow> FileInfo \<Rightarrow> FileInfo" where
  "updateFileInfoModTime w name info =
     (if hasMetadater w \<and> \<not> fi_isDir info then
        (case overlay w (ensureAbsPath name) of
           Some t \<Rightarrow> info\<lparr>fi_modTime := t\<rparr>
         | None \<Rightarrow> info)
      else info)"

section \<open>Stat, Remove and Rename\<close>

definition IsNotExist :: "error option \<Rightarrow> bool" where
  "IsNotExist err =
     (case err of
        None \<Rightarrow> False
      | Some ErrObjectNotExist \<Rightarrow> True
      | Some ErrBucketNotExist \<Rightarrow> True
      | Some (GoogleApiError code) \<Rightarrow> code = 404
      | Some _ \<Rightarrow> False)"

definition defaultGCSPageSize :: nat where
  "defaultGCSPageSize = 5000"

fun hasContentsObjects :: "string \<Rightarrow> ObjectAttrs list \<Rightarrow> bool" where
  "hasContentsObjects prefix [] = False"
| "hasContentsObjects prefix (attrs # rest) =
     (let name = fst (resolve (Name attrs) prefix (ContentType attrs)) in
      if name = ''/'' \<or> name = [] then hasContentsObjects prefix rest else True)"

text \<open>\<^verbatim>\<open>hasContents\<close> asks for one page of two entries and looks at no further page.\<close>

definition hasContents :: "world \<Rightarrow> string \<Rightarrow> (bool \<times> error option) \<times> world" where
  "hasContents w name =
     (let prefix = getPrefix name;
          (page, w') = listObjects w prefix False 2
      in case page of
           PageErr e \<Rightarrow> ((False, Some e), w')
         | Page objects next \<Rightarrow> ((hasContentsObjects prefix objects, None), w'))"

definition getObjectStat :: "world \<Rightarrow> string \<Rightarrow> (error + FileInfo) \<times> world" where
  "getObjectStat w name =
     (let (r, w1) = headObject w name in
      case r of
        Inr attrs \<Rightarrow>
          (let isDir = (ContentType attrs = dirMimeType \<or> HasSuffix (Name attrs) ''/'')
           in (Inr (updateFileInfoModTime w1 name
                      (NewFileInfo name isDir (Size attrs) (Updated attrs))), w1))
      | Inl err \<Rightarrow>
          if \<not> IsNotExist (Some err) then (Inl err, w1)
          else
            (let ((hasContentsResult, err), w2) = hasContents w1 name in
             case err of
               Some e \<Rightarrow> (Inl e, w2)
             | None \<Rightarrow>
                 if hasContentsResult
                 then (Inr (updateFileInfoModTime w2 name (NewFileInfo name True 0 0)), w2)
                 else
                   (let (r2, w3) = headObject w2 (name @ ''/'') in
                    case r2 of
                      Inl e \<Rightarrow> (Inl e, w3)
                    | Inr attrs \<Rightarrow>
                        (Inr (updateFileInfoModTime w3 name
                                (NewFileInfo name True (Size attrs) (Updated attrs))), w3))))"


text \<open>
  \<^verbatim>\<open>mkdirInternal\<close> calls \<^verbatim>\<open>Create(name, -1)\<close> and closes the writer at once: an empty
  object with the directory content type is uploaded under the must-not-exist
  precondition, and the error of the upload is returned. The local pipe is taken to be
  available.
\<close>

definition mkdirInternal :: "world \<Rightarrow> string \<Rightarrow> error option \<times> world" where
  "mkdirInternal w name =
     (let name = (if \<not> HasSuffix name ''/'' then name @ ''/'' else name)
      in writeObject w name DoesNotExist dirMimeType)"

definition copyFileInternal :: "world \<Rightarrow> string \<Rightarrow> string \<Rightarrow> error option \<times> world" where
  "copyFileInternal w source target =
     (let (r, w1) = headObject w target;
          dst = (case r of
                   Inr attrs \<Rightarrow> GenerationMatch (Generation attrs)
                 | Inl statErr \<Rightarrow>
                     if IsNotExist (Some statErr) then DoesNotExist else NoCondition)
      in copyObject w1 source target dst (contentTypeOf w1 source))"

definition Remove :: "world \<Rightarrow> string \<Rightarrow> bool \<Rightarrow> error option \<times> world" where
  "Remove w name isDir =
     (let ((hasContentsResult, err), w0) =
            (if isDir then hasContents w name else ((False, None), w))
      in if isDir \<and> err \<noteq> None then (err, w0)
         else if isDir \<and> hasContentsResult then (Some (ErrNonEmptyRemove name), w0)
         else
           (let name = (if isDir \<and> \<not> HasSuffix name ''/'' then name @ ''/'' else name);
                (r, w1) = headObject w0 name;
                c = (case r of
                       Inr attrs \<Rightarrow> GenerationMatch (Generation attrs)
                     | Inl statErr \<Rightarrow> NoCondition);
                (err, w2) = deleteObject w1 name c;
                (err, w3) = (if isDir \<and> IsNotExist err
                             then deleteObject w2 (TrimSuffix name ''/'') NoCondition
                             else (err, w2));
                w4 = (if hasMetadater w3 \<and> err = None \<and> \<not> isDir
                      then snd (pluginRemoveMetadata w3 (ensureAbsPath name))
                      else w3)
            in (err, w4)))"

text \<open>\<^verbatim>\<open>ReadDir\<close> on the world: the plugin's folder times, then the delimited listing.\<close>

definition fsReadDir :: "world \<Rightarrow> string \<Rightarrow> (FileInfo list \<times> error option) \<times> world" where
  "fsReadDir w dirname =
     (let (modTimes, w1) = getFolderModTimes w dirname in
      case modTimes of
        Inl e \<Rightarrow> (ReadDir (Inl e) (Page [] None) dirname, w1)
      | Inr m \<Rightarrow>
          (let (listing, w2) = listObjects w1 (getPrefix dirname) True defaultGCSPageSize
           in (ReadDir (Inr m) listing dirname, w2)))"

type_synonym renameResult = "((64 word \<times> 64 word \<times> error option) \<times> world) option"

text \<open>
  The loop of \<^verbatim>\<open>renameInternal\<close> over the entries of the source directory, with the
  recursive call as a parameter. It stops at the first failing child and returns the
  counters of the children before it.
\<close>

fun renameEntries ::
  "(world \<Rightarrow> string \<Rightarrow> string \<Rightarrow> FileInfo \<Rightarrow> renameResult) \<Rightarrow> string \<Rightarrow> string \<Rightarrow>
   FileInfo list \<Rightarrow> 64 word \<times> 64 word \<Rightarrow> world \<Rightarrow> renameResult" where
  "renameEntries child source target [] (numFiles, filesSize) w =
     Some ((numFiles, filesSize, None), w)"
| "renameEntries child source target (info # rest) (numFiles, filesSize) w =
     (case child w (Join [source, fi_name info]) (Join [target, fi_name info]) info of
        None \<Rightarrow> None
      | Some ((files, sz, err), w') \<Rightarrow>
          (case err of
             Some e \<Rightarrow> Some ((numFiles, filesSize, Some e), w')
           | None \<Rightarrow>
               renameEntries child source target rest (numFiles + files, filesSize + sz) w'))"

text \<open>The tail of \<^verbatim>\<open>renameInternal\<close>: remove the source; an absent source is no error.\<close>

definition renameFinish ::
  "world \<Rightarrow> string \<Rightarrow> bool \<Rightarrow> 64 word \<Rightarrow> 64 word \<Rightarrow> renameResult" where
  "renameFinish w source isDir numFiles filesSize =
     (let (err, w') = Remove w source isDir;
          err = (if IsNotExist err then None else err)
      in Some ((numFiles, filesSize, err), w'))"

text \<open>
  \<^verbatim>\<open>renameInternal\<close> calls itself for every entry of a directory and need not return
  (a directory renamed into itself grows as it is read), so it takes fuel: the number of
  nested calls allowed. \<open>None\<close> is "out of fuel". \<^verbatim>\<open>renameMode\<close> is a package
  variable declared outside this file and is a parameter here.
\<close>

primrec renameInternal ::
  "nat \<Rightarrow> nat \<Rightarrow> world \<Rightarrow> string \<Rightarrow> string \<Rightarrow> FileInfo \<Rightarrow> renameResult" where
  "renameInternal 0 renameMode w source target fi = None"
| "renameInternal (Suc fuel) renameMode w source target fi =
     (if fi_isDir fi then
        (let ((hasContentsResult, err), w1) =
               (if renameMode = 0 then hasContents w source else ((False, None), w))
         in if renameMode = 0 \<and> err \<noteq> None then Some ((0, 0, err), w1)
            else if renameMode = 0 \<and> hasContentsResult
            then Some ((0, 0, Some (ErrNonEmptyRename source)), w1)
            else
              (let (err, w2) = mkdirInternal w1 target in
               if err \<noteq> None then Some ((0, 0, err), w2)
               else if renameMode = 1 then
                 (let ((entries, err), w3) = fsReadDir w2 source in
                  if err \<noteq> None then Some ((0, 0, err), w3)
                  else
                    (case renameEntries (renameInternal fuel renameMode) source target
                            entries (0, 0) w3 of
                       None \<Rightarrow> None
                     | Some ((numFiles, filesSize, err), w4) \<Rightarrow>
                         if err \<noteq> None then Some ((numFiles, filesSize, err), w4)
                         else renameFinish w4 source (fi_isDir fi) numFiles filesSize))
               else renameFinish w2 source (fi_isDir fi) 0 0))
      else
        (let (err, w1) = copyFileInternal w source target in
         if err \<noteq> None then Some ((0, 0, err), w1)
         else
           (let w2 = (if hasMetadater w1
                      then snd (pluginSetModificationTime w1 (ensureAbsPath target)
                                  (fi_modTime fi))
                      else w1)
            in renameFinish w2 source (fi_isDir fi) 1 (fi_size fi))))"

definition Rename :: "nat \<Rightarrow> nat \<Rightarrow> world \<Rightarrow> string \<Rightarrow> string \<Rightarrow> renameResult" where
  "Rename fuel renameMode w source target =
     (if source = target then Some ((- 1, - 1, None), w)
      else
        (let (r, w1) = getObjectStat w source in
         case r of
           Inl err \<Rightarrow> Some ((- 1, - 1, Some err), w1)
         | Inr fi \<Rightarrow> renameInternal fuel renameMode w1 source target fi))"

section \<open>Predicates and sample data used to state the properties\<close>

text \<open>An entry that the size scan counts: live, and not a zero-length directory marker.\<close>

definition dirSizeCounted :: "ObjectAttrs \<Rightarrow> bool" where
  "dirSizeCounted a =
     (\<not> Deleted a \<and>
      \<not> ((HasSuffix (Name a) ''/'' \<or> ContentType a = dirMimeType) \<and> Size a = 0))"

text \<open>A live object of a listing, as opposed to a delimiter prefix or a tombstone.\<close>

definition listedObject :: "ObjectAttrs \<Rightarrow> bool" where
  "listedObject a = (Prefix a = [] \<and> \<not> Deleted a)"

definition entryKey :: "FileInfo \<Rightarrow> string \<times> bool" where
  "entryKey fi = (fi_name fi, fi_isDir fi)"

text \<open>
  The entry that \<^verbatim>\<open>ReadDir\<close> owes to a listed item: a directory of the resolved name
  for a delimiter prefix, an entry of the resolved name and kind for a live object, and
  nothing when the resolved name is empty. The \<^verbatim>\<open>prefixes\<close> map records only names
  of directories already in the result.
\<close>

definition expectedKey :: "string \<Rightarrow> ObjectAttrs \<Rightarrow> (string \<times> bool) option" where
  "expectedKey pre a =
     (if Prefix a \<noteq> [] then
        (if fst (resolve (Prefix a) pre (ContentType a)) = [] then None
         else Some (fst (resolve (Prefix a) pre (ContentType a)), True))
      else if fst (resolve (Name a) pre (ContentType a)) = [] \<or> Deleted a then None
      else Some (fst (resolve (Name a) pre (ContentType a)),
                 snd (resolve (Name a) pre (ContentType a))))"

definition dirsRecorded :: "FileInfo list \<times> (string \<rightharpoonup> bool) \<Rightarrow> bool" where
  "dirsRecorded acc =
     (\<forall>n. snd acc n \<noteq> None \<longrightarrow> (n, True) \<in> set (map entryKey (fst acc)))"

definition readDirInv ::
  "string \<Rightarrow> ObjectAttrs list \<Rightarrow> FileInfo list \<times> (string \<rightharpoonup> bool) \<Rightarrow> bool" where
  "readDirInv pre rest acc =
     (distinct (map entryKey (fst acc)) \<and>
      (\<forall>fi \<in> set (fst acc). fi_isDir fi \<longrightarrow> snd acc (fi_name fi) \<noteq> None) \<and>
      (\<forall>fi \<in> set (fst acc). \<not> fi_isDir fi \<longrightarrow>
          pre @ fi_name fi \<notin> Name ` {a \<in> set rest. listedObject a}))"

definition obj :: "string \<Rightarrow> 64 word \<Rightarrow> string \<Rightarrow> ObjectAttrs" where
  "obj name sz ct =
     \<lparr>Name = name, Prefix = [], Size = sz, Deleted = False, Updated = 0,
      ContentType = ct, ContentEncoding = [], Generation = 1\<rparr>"




text \<open>The calls that change the bucket or the plugin's records.\<close>

fun isMutation :: "call \<Rightarrow> bool" where
  "isMutation (HeadObject n) = False"
| "isMutation (ListObjects p d n) = False"
| "isMutation (GetFolderModTimes d) = False"
| "isMutation (WriteObject n c t) = True"
| "isMutation (CopyObject s t c) = True"
| "isMutation (DeleteObject n c) = True"
| "isMutation (SetModificationTime p t) = True"
| "isMutation (RemoveMetadata p) = True"

definition mutations :: "world \<Rightarrow> (call \<times> error option) list" where
  "mutations w = filter (\<lambda>c. isMutation (fst c)) (calls w)"

definition sameStore :: "world \<Rightarrow> world \<Rightarrow> bool" where
  "sameStore w w' =
     (bucket w' = bucket w \<and> overlay w' = overlay w \<and> mutations w' = mutations w \<and>
      faults w' = faults w \<and> hasMetadater w' = hasMetadater w \<and>
      contentTypeOf w' = contentTypeOf w \<and> nextGeneration w' = nextGeneration w)"

text \<open>
  The bucket of the spec's concrete scenario: \<^verbatim>\<open>a/b.txt\<close> of 10 bytes and
  \<^verbatim>\<open>a/c/d.txt\<close> of 5 bytes, no plugin, and a service that answers every call.
\<close>

definition sampleWorld :: world where
  "sampleWorld =
     \<lparr>bucket = [obj ''a/b.txt'' 10 ''text/plain'', obj ''a/c/d.txt'' 5 ''text/plain''],
      overlay = Map.empty, hasMetadater = False, nextGeneration = 2,
      contentTypeOf = (\<lambda>n. []), calls = [], faults = (\<lambda>n. None)\<rparr>"

text \<open>The same bucket behind a service that refuses the first call with status 403.\<close>

definition deniedWorld :: world where
  "deniedWorld =
     sampleWorld\<lparr>faults := (\<lambda>n. if n = 0 then Some (GoogleApiError 403) else None)\<rparr>"

definition resultCalls :: "renameResult \<Rightarrow> (call \<times> error option) list option" where
  "resultCalls r = map_option (\<lambda>x. calls (snd x)) r"

definition resultCounters :: "renameResult \<Rightarrow> (64 word \<times> 64 word \<times> error option) option" where
  "resultCounters r = map_option fst r"

definition resultKeys :: "renameResult \<Rightarrow> string list option" where
  "resultKeys r = map_option (\<lambda>x. map Name (bucket (snd x))) r"

definition headAnswer :: "error + ObjectAttrs \<Rightarrow> error option" where
  "headAnswer r = (case r of Inl e \<Rightarrow> Some e | Inr a \<Rightarrow> None)"

text \<open>
  The destination precondition \<open>c\<close> of a copy, from the answer \<open>h\<close> to the head of the
  target: generation match when the target was found, must-not-exist when the answer
  was not-found, none when the head failed otherwise.
\<close>

definition destinationCondition ::
  "ObjectAttrs list \<Rightarrow> string \<Rightarrow> error option \<Rightarrow> precondition \<Rightarrow> bool" where
  "destinationCondition objs target h c =
     ((h = None \<longrightarrow>
         (\<exists>t. lookupObject objs target = Some t \<and> c = GenerationMatch (Generation t))) \<and>
      (IsNotExist h \<longrightarrow> c = DoesNotExist) \<and>
      (h \<noteq> None \<and> \<not> IsNotExist h \<longrightarrow> c = NoCondition))"

text \<open>The number of copies the service has carried out, read off the log of calls.\<close>

fun isCopied :: "call \<times> error option \<Rightarrow> bool" where
  "isCopied (CopyObject s t c, a) = (a = None)"
| "isCopied (other, a) = False"

definition copied :: "world \<Rightarrow> nat" where
  "copied w = length (filter isCopied (calls w))"

definition resultCopied :: "renameResult \<Rightarrow> nat option" where
  "resultCopied r = map_option (\<lambda>x. copied (snd x)) r"

text \<open>
  A bucket with two files in the subdirectory \<^verbatim>\<open>a/c\<close>, behind a service that fails
  the call number \<open>k\<close> (counted from 0) with status 500.
\<close>

definition failingWorld :: "nat \<Rightarrow> world" where
  "failingWorld k =
     \<lparr>bucket = [obj ''a/c/d.txt'' 5 ''text/plain'', obj ''a/c/e.txt'' 7 ''text/plain''],
      overlay = Map.empty, hasMetadater = False, nextGeneration = 2,
      contentTypeOf = (\<lambda>n. []), calls = [],
      faults = (\<lambda>n. if n = k then Some (GoogleApiError 500) else None)\<rparr>"


text \<open>
  Well-formed paths and configurations, as the path functions expect them. An element
  is kept by \<^verbatim>\<open>path.Clean\<close> when it is neither empty nor \<^verbatim>\<open>.\<close>; a real element is
  moreover not \<^verbatim>\<open>..\<close> and holds no slash. A key prefix is empty or a relative path of
  real elements followed by a slash; a mount path is empty or an absolute path of real
  elements. A virtual path is under the mount when it is the mount path or continues
  it after a slash.
\<close>

definition kept :: "string \<Rightarrow> bool" where
  "kept e = (e \<noteq> [] \<and> e \<noteq> ''.'')"

definition realElem :: "string \<Rightarrow> bool" where
  "realElem e = (e \<noteq> [] \<and> e \<noteq> ''.'' \<and> e \<noteq> ''..'' \<and> CHR ''/'' \<notin> set e)"

definition noDotDot :: "string \<Rightarrow> bool" where
  "noDotDot p = (''..'' \<notin> set (splitSlash p))"

definition validKeyPrefix :: "string \<Rightarrow> bool" where
  "validKeyPrefix K =
     (K = [] \<or> (HasSuffix K ''/'' \<and> list_all realElem (splitSlash (butlast K))))"

definition validMountPath :: "string \<Rightarrow> bool" where
  "validMountPath m = (m = [] \<or> (IsAbs m \<and> list_all realElem (splitSlash (tl m))))"

definition underMount :: "string \<Rightarrow> string \<Rightarrow> bool" where
  "underMount m p = (m = [] \<or> p = m \<or> HasPrefix p (m @ ''/''))"

text \<open>
  The elements that \<^verbatim>\<open>path.Clean\<close> keeps of a rooted path, in order, and the paths
  whose \<^verbatim>\<open>..\<close> elements never climb above the directory they start in: \<open>d\<close> is the
  number of elements that can still be removed. A virtual path stays below the mount
  root when the part after the mount path does.
\<close>

fun staysBelow :: "nat \<Rightarrow> string list \<Rightarrow> bool" where
  "staysBelow d [] = True"
| "staysBelow d (e # es) =
     (if e = [] \<or> e = ''.'' then staysBelow d es
      else if e = ''..'' then (0 < d \<and> staysBelow (d - 1) es)
      else staysBelow (Suc d) es)"

definition normElems :: "string list \<Rightarrow> string list" where
  "normElems cs = rev (foldl (cleanElem True) [] cs)"

definition belowRoot :: "string \<Rightarrow> string \<Rightarrow> bool" where
  "belowRoot m p = staysBelow 0 (splitSlash (drop (length m) p))"

text \<open>The cleaned, absolute form of a name that \<^verbatim>\<open>GetRelativePath\<close> tests against the key prefix.\<close>

definition cleanAbs :: "string \<Rightarrow> string" where
  "cleanAbs name =
     (let rel = Clean name;
          rel = (if rel = ''.'' then [] else rel)
      in if \<not> IsAbs rel then ''/'' @ rel else rel)"

section \<open>Properties of GetDirSize\<close>

lemma dirSizeObjects_filter:
  "dirSizeObjects objs (n, s) =
     (n + word_of_nat (length (filter dirSizeCounted objs)),
      s + sum_list (map Size (filter dirSizeCounted objs)))"
  by (induction objs arbitrary: n s) (auto simp: dirSizeSkips_def dirSizeCounted_def Let_def)

lemma dirSizePages_filter:
  "dirSizePages p (n, s) =
     (n + word_of_nat (length (filter dirSizeCounted (pagerObjects p))),
      s + sum_list (map Size (filter dirSizeCounted (pagerObjects p))),
      pagerError p)"
proof (induction p arbitrary: n s)
  case (PageErr e)
  show ?case by simp
next
  case (Page objs nxt)
  show ?case
  proof (cases nxt)
    case None
    then show ?thesis by (simp add: dirSizeObjects_filter)
  next
    case (Some q)
    have "q \<in> set_option nxt" using Some by simp
    from Page(1)[OF this] Some show ?thesis
      by (simp add: dirSizeObjects_filter add.assoc)
  qed
qed

text \<open>
  C8. Over the whole listing (all pages up to a failing one), \<^verbatim>\<open>GetDirSize\<close> returns
  the number of entries that are live and are not zero-length directory markers (key
  ending in a slash or directory content type, with size 0), and the sum of their
  sizes, in Go's 64-bit arithmetic: a tombstoned entry or a zero-length directory
  marker adds to neither counter, every other entry adds 1 and its size. The error is
  that of the failing page, if any.
\<close>

theorem GetDirSize_counts:
  "GetDirSize listing =
     (word_of_nat (length (filter dirSizeCounted (pagerObjects listing))),
      sum_list (map Size (filter dirSizeCounted (pagerObjects listing))),
      pagerError listing)"
  by (simp add: GetDirSize_def dirSizePages_filter)

theorem GetDirSize_counts_witness:
  "GetDirSize (Page [obj ''a/'' 0 dirMimeType, obj ''a/b.txt'' 10 ''text/plain'']
                 (Some (Page [obj ''a/c/'' 0 [], obj ''a/c/d.txt'' 5 ''text/plain''] None)))
     = (2, 15, None)"
  using GetDirSize_counts
    [of "Page [obj ''a/'' 0 dirMimeType, obj ''a/b.txt'' 10 ''text/plain'']
           (Some (Page [obj ''a/c/'' 0 [], obj ''a/c/d.txt'' 5 ''text/plain''] None))"]
  by (simp add: dirSizeCounted_def obj_def HasSuffix_def dirMimeType_def)

section \<open>Properties of ReadDir\<close>

lemma readDirObjects_append:
  "readDirObjects m pre (xs @ ys) acc = readDirObjects m pre ys (readDirObjects m pre xs acc)"
  by (induction xs arbitrary: acc) auto

lemma readDirPages_flat:
  "readDirPages m pre p acc = (fst (readDirObjects m pre (pagerObjects p) acc), pagerError p)"
proof (induction p arbitrary: acc)
  case (PageErr e)
  show ?case by simp
next
  case (Page objs nxt)
  show ?case
  proof (cases nxt)
    case None
    then show ?thesis by simp
  next
    case (Some q)
    have "q \<in> set_option nxt" using Some by simp
    from Page(1)[OF this] Some show ?thesis by (simp add: readDirObjects_append)
  qed
qed

lemma resolve_file_name:
  assumes "HasPrefix n pre" "\<not> snd (resolve n pre ct)"
  shows "pre @ fst (resolve n pre ct) = n"
  using assms
  by (auto simp: resolve_def Let_def TrimPrefix_def HasPrefix_def split: if_splits)
     (metis append_take_drop_id)

lemma readDirEntry_inv:
  assumes inv: "readDirInv pre (a # rest) acc"
      and d: "distinct (map Name (filter listedObject (a # rest)))"
      and p: "Prefix a = [] \<longrightarrow> HasPrefix (Name a) pre"
  shows "readDirInv pre rest (readDirEntry m pre a acc)"
proof (cases "Prefix a \<noteq> []")
  case True
  then show ?thesis using inv
    by (auto simp: readDirInv_def readDirEntry_def Let_def NewFileInfo_def entryKey_def)
next
  case False
  then have pa: "Prefix a = []" by simp
  show ?thesis
  proof (cases "snd (resolve (Name a) pre (ContentType a))")
    case True
    then show ?thesis using inv pa
      by (auto simp: readDirInv_def readDirEntry_def Let_def NewFileInfo_def entryKey_def)
  next
    case False
    from resolve_file_name[OF _ False] p pa
    have nm: "pre @ fst (resolve (Name a) pre (ContentType a)) = Name a" by simp
    show ?thesis
    proof (cases "Deleted a \<or> fst (resolve (Name a) pre (ContentType a)) = []")
      case True
      then show ?thesis using inv pa False
        by (auto simp: readDirInv_def readDirEntry_def Let_def)
    next
      case live: False
      then have la: "listedObject a" using pa by (simp add: listedObject_def)
      with d have fresh: "Name a \<notin> Name ` {b \<in> set rest. listedObject b}" by auto
      from inv la have old:
        "\<forall>fi \<in> set (fst acc). \<not> fi_isDir fi \<longrightarrow> pre @ fi_name fi \<noteq> Name a"
        by (auto simp: readDirInv_def)
      show ?thesis using inv pa False live fresh old nm
        by (auto simp: readDirInv_def readDirEntry_def Let_def NewFileInfo_def entryKey_def)
    qed
  qed
qed

lemma readDirObjects_inv:
  assumes "readDirInv pre objs acc"
      and "distinct (map Name (filter listedObject objs))"
      and "\<forall>a \<in> set objs. Prefix a = [] \<longrightarrow> HasPrefix (Name a) pre"
  shows "readDirInv pre [] (readDirObjects m pre objs acc)"
  using assms
proof (induction objs arbitrary: acc)
  case Nil
  then show ?case by simp
next
  case (Cons a rest)
  have "readDirInv pre rest (readDirEntry m pre a acc)"
    using readDirEntry_inv[OF Cons.prems(1) Cons.prems(2)] Cons.prems(3) by simp
  moreover have "distinct (map Name (filter listedObject rest))"
    using Cons.prems(2) by (auto split: if_splits)
  ultimately show ?case using Cons.IH Cons.prems(3) by simp
qed

lemma readDirEntry_grows:
  "set (map entryKey (fst acc)) \<subseteq> set (map entryKey (fst (readDirEntry m pre a acc)))"
  by (auto simp: readDirEntry_def Let_def)

lemma readDirEntry_recorded:
  "dirsRecorded acc \<Longrightarrow> dirsRecorded (readDirEntry m pre a acc)"
  by (auto simp: dirsRecorded_def readDirEntry_def Let_def entryKey_def NewFileInfo_def
      prod_eq_iff)

lemma readDirEntry_emits:
  assumes "dirsRecorded acc" "expectedKey pre a = Some k"
  shows "k \<in> set (map entryKey (fst (readDirEntry m pre a acc)))"
  using assms
  by (auto simp: dirsRecorded_def expectedKey_def readDirEntry_def Let_def entryKey_def
      NewFileInfo_def prod_eq_iff split: if_splits)

lemma readDirObjects_grows:
  "set (map entryKey (fst acc)) \<subseteq> set (map entryKey (fst (readDirObjects m pre objs acc)))"
proof (induction objs arbitrary: acc)
  case Nil
  show ?case by simp
next
  case (Cons a objs)
  from readDirEntry_grows[of acc m pre a] Cons[of "readDirEntry m pre a acc"]
  show ?case by auto
qed

lemma readDirObjects_emits:
  assumes "dirsRecorded acc" "a \<in> set objs" "expectedKey pre a = Some k"
  shows "k \<in> set (map entryKey (fst (readDirObjects m pre objs acc)))"
  using assms
proof (induction objs arbitrary: acc)
  case Nil
  then show ?case by simp
next
  case (Cons b objs)
  have r: "dirsRecorded (readDirEntry m pre b acc)"
    using readDirEntry_recorded[OF Cons.prems(1)] .
  show ?case
  proof (cases "a = b")
    case True
    from readDirEntry_emits[OF Cons.prems(1), of pre b k m] Cons.prems(3) True
    have "k \<in> set (map entryKey (fst (readDirEntry m pre b acc)))" by simp
    with readDirObjects_grows[of "readDirEntry m pre b acc" m pre objs] show ?thesis by auto
  next
    case False
    with Cons.prems(2) have "a \<in> set objs" by simp
    from Cons.IH[OF r this Cons.prems(3)] show ?thesis by simp
  qed
qed

lemma ReadDir_emits:
  assumes "a \<in> set (pagerObjects listing)" "expectedKey (getPrefix dirname) a = Some k"
  shows "k \<in> set (map entryKey (fst (ReadDir (Inr m) listing dirname)))"
proof -
  have "dirsRecorded ([], Map.empty)" by (simp add: dirsRecorded_def)
  from readDirObjects_emits[OF this assms] show ?thesis
    by (simp add: ReadDir_def readDirPages_flat)
qed

text \<open>
  C6, as stated, fails: a directory holding a regular file \<^verbatim>\<open>a/x\<close> and an object
  \<^verbatim>\<open>a/x/y\<close> is listed as the object \<^verbatim>\<open>a/x\<close> and the delimiter prefix \<^verbatim>\<open>a/x/\<close>,
  and \<^verbatim>\<open>ReadDir\<close> returns two entries named \<^verbatim>\<open>x\<close>, the file and the directory.
\<close>

theorem ReadDir_same_name_counterexample:
  "\<not> distinct (map fi_name (fst (ReadDir (Inr Map.empty)
       (Page [obj ''a/x'' 5 ''text/plain'', prefixEntry ''a/x/''] None) ''a'')))"
  by (simp add: ReadDir_def getPrefix_def TrimPrefix_def HasPrefix_def HasSuffix_def obj_def
      resolve_def prefixEntry_def readDirEntry_def NewFileInfo_def dirMimeType_def
      TrimSuffix_def Let_def)

text \<open>
  C6, amended. When the live objects of the listing have distinct keys that carry the
  directory's prefix (as a listing of that prefix delivers them), \<^verbatim>\<open>ReadDir\<close> never
  returns two entries with the same name and the same kind, over all pages and also
  when a page fails: no directory name is returned twice, whether it arrives as a
  delimiter prefix, as an explicit directory marker, or both in either order, and no
  file name is returned twice. And when the folder times are obtained, every listed
  item is answered: a delimiter prefix by a directory entry of its resolved name, a
  live object by an entry of its resolved name and kind (items whose resolved name is
  empty apart). So a regular file and a delimiter prefix of the same name are both
  returned, as a file and as a directory of that name.
\<close>

theorem ReadDir_entries_distinct:
  "(distinct (map Name (filter listedObject (pagerObjects listing))) \<and>
    (\<forall>a \<in> set (pagerObjects listing).
        Prefix a = [] \<longrightarrow> HasPrefix (Name a) (getPrefix dirname)) \<longrightarrow>
      distinct (map entryKey (fst (ReadDir folderModTimes listing dirname)))) \<and>
   (a \<in> set (pagerObjects listing) \<and> expectedKey (getPrefix dirname) a = Some k \<longrightarrow>
      k \<in> set (map entryKey (fst (ReadDir (Inr m) listing dirname)))) \<and>
   (f \<in> set (pagerObjects listing) \<and> d \<in> set (pagerObjects listing) \<and>
    expectedKey (getPrefix dirname) f = Some (n, False) \<and>
    expectedKey (getPrefix dirname) d = Some (n, True) \<longrightarrow>
      (n, False) \<in> set (map entryKey (fst (ReadDir (Inr m) listing dirname))) \<and>
      (n, True) \<in> set (map entryKey (fst (ReadDir (Inr m) listing dirname))))"
proof (intro conjI impI)
  assume h: "distinct (map Name (filter listedObject (pagerObjects listing))) \<and>
    (\<forall>a \<in> set (pagerObjects listing).
        Prefix a = [] \<longrightarrow> HasPrefix (Name a) (getPrefix dirname))"
  show "distinct (map entryKey (fst (ReadDir folderModTimes listing dirname)))"
  proof (cases folderModTimes)
    case (Inl e)
    then show ?thesis by (simp add: ReadDir_def)
  next
    case (Inr mt)
    have "readDirInv (getPrefix dirname) (pagerObjects listing) ([], Map.empty)"
      by (simp add: readDirInv_def)
    from readDirObjects_inv[OF this, of mt] h Inr show ?thesis
      by (simp add: ReadDir_def readDirPages_flat readDirInv_def)
  qed
next
  assume "a \<in> set (pagerObjects listing) \<and> expectedKey (getPrefix dirname) a = Some k"
  then show "k \<in> set (map entryKey (fst (ReadDir (Inr m) listing dirname)))"
    using ReadDir_emits by blast
next
  assume "f \<in> set (pagerObjects listing) \<and> d \<in> set (pagerObjects listing) \<and>
    expectedKey (getPrefix dirname) f = Some (n, False) \<and>
    expectedKey (getPrefix dirname) d = Some (n, True)"
  then show "(n, False) \<in> set (map entryKey (fst (ReadDir (Inr m) listing dirname)))"
    using ReadDir_emits by blast
next
  assume "f \<in> set (pagerObjects listing) \<and> d \<in> set (pagerObjects listing) \<and>
    expectedKey (getPrefix dirname) f = Some (n, False) \<and>
    expectedKey (getPrefix dirname) d = Some (n, True)"
  then show "(n, True) \<in> set (map entryKey (fst (ReadDir (Inr m) listing dirname)))"
    using ReadDir_emits by blast
qed

theorem ReadDir_entries_distinct_witness:
  "distinct (map Name (filter listedObject
       [prefixEntry ''a/c/'', obj ''a/c'' 0 dirMimeType, obj ''a/b.txt'' 10 ''text/plain'',
        prefixEntry ''a/c/''])) \<and>
   HasPrefix ''a/c'' (getPrefix ''a'') \<and> HasPrefix ''a/b.txt'' (getPrefix ''a'') \<and>
   distinct (map entryKey (fst (ReadDir (Inr Map.empty)
       (Page [prefixEntry ''a/c/'', obj ''a/c'' 0 dirMimeType]
          (Some (Page [obj ''a/b.txt'' 10 ''text/plain'', prefixEntry ''a/c/''] None))) ''a''))) \<and>
   map entryKey (fst (ReadDir (Inr Map.empty)
       (Page [prefixEntry ''a/c/'', obj ''a/c'' 0 dirMimeType]
          (Some (Page [obj ''a/b.txt'' 10 ''text/plain'', prefixEntry ''a/c/''] None))) ''a''))
     = [(''c'', True), (''b.txt'', False)] \<and>
   expectedKey (getPrefix ''a'') (obj ''a/x'' 5 ''text/plain'') = Some (''x'', False) \<and>
   expectedKey (getPrefix ''a'') (prefixEntry ''a/x/'') = Some (''x'', True) \<and>
   (''x'', False) \<in> set (map entryKey (fst (ReadDir (Inr Map.empty)
       (Page [obj ''a/x'' 5 ''text/plain'', prefixEntry ''a/x/''] None) ''a''))) \<and>
   (''x'', True) \<in> set (map entryKey (fst (ReadDir (Inr Map.empty)
       (Page [obj ''a/x'' 5 ''text/plain'', prefixEntry ''a/x/''] None) ''a'')))"
proof -
  let ?l = "Page [prefixEntry ''a/c/'', obj ''a/c'' 0 dirMimeType]
      (Some (Page [obj ''a/b.txt'' 10 ''text/plain'', prefixEntry ''a/c/''] None))"
  let ?l2 = "Page [obj ''a/x'' 5 ''text/plain'', prefixEntry ''a/x/''] None"
  have h1: "distinct (map Name (filter listedObject (pagerObjects ?l)))"
    by (simp add: listedObject_def obj_def prefixEntry_def)
  have h2: "\<forall>a \<in> set (pagerObjects ?l). Prefix a = [] \<longrightarrow> HasPrefix (Name a) (getPrefix ''a'')"
    by (simp add: obj_def prefixEntry_def getPrefix_def HasPrefix_def HasSuffix_def TrimPrefix_def)
  have v: "map entryKey (fst (ReadDir (Inr Map.empty) ?l ''a'')) = [(''c'', True), (''b.txt'', False)]"
    by (simp add: ReadDir_def getPrefix_def TrimPrefix_def HasPrefix_def HasSuffix_def obj_def
        resolve_def prefixEntry_def readDirEntry_def NewFileInfo_def dirMimeType_def
        TrimSuffix_def Let_def entryKey_def)
  have h3: "HasPrefix ''a/c'' (getPrefix ''a'') \<and> HasPrefix ''a/b.txt'' (getPrefix ''a'')"
    by (simp add: getPrefix_def HasPrefix_def HasSuffix_def TrimPrefix_def)
  have ef: "expectedKey (getPrefix ''a'') (obj ''a/x'' 5 ''text/plain'') = Some (''x'', False)"
    by (simp add: expectedKey_def getPrefix_def TrimPrefix_def HasPrefix_def HasSuffix_def
        obj_def resolve_def dirMimeType_def TrimSuffix_def Let_def)
  have ed: "expectedKey (getPrefix ''a'') (prefixEntry ''a/x/'') = Some (''x'', True)"
    by (simp add: expectedKey_def getPrefix_def TrimPrefix_def HasPrefix_def HasSuffix_def
        prefixEntry_def resolve_def dirMimeType_def TrimSuffix_def Let_def)
  have mf: "obj ''a/x'' 5 ''text/plain'' \<in> set (pagerObjects ?l2)"
    and md: "prefixEntry ''a/x/'' \<in> set (pagerObjects ?l2)" by simp_all
  have d: "distinct (map entryKey (fst (ReadDir (Inr Map.empty) ?l ''a'')))"
    using ReadDir_entries_distinct[where listing = ?l and dirname = "''a''"
        and folderModTimes = "Inr Map.empty", THEN conjunct1] h1 h2 by blast
  have both: "(''x'', False) \<in> set (map entryKey (fst (ReadDir (Inr Map.empty) ?l2 ''a''))) \<and>
      (''x'', True) \<in> set (map entryKey (fst (ReadDir (Inr Map.empty) ?l2 ''a'')))"
    using ReadDir_entries_distinct[where listing = ?l2 and dirname = "''a''"
        and f = "obj ''a/x'' 5 ''text/plain''" and d = "prefixEntry ''a/x/''"
        and n = "''x''" and m = Map.empty, THEN conjunct2, THEN conjunct2] mf md ef ed
    by blast
  have one: "(''x'', True) \<in> set (map entryKey (fst (ReadDir (Inr Map.empty) ?l2 ''a'')))"
    using ReadDir_entries_distinct[where listing = ?l2 and dirname = "''a''"
        and a = "prefixEntry ''a/x/''" and k = "(''x'', True)" and m = Map.empty,
        THEN conjunct2, THEN conjunct1] md ed
    by blast
  from h1 h3 v d ef ed both one show ?thesis by simp
qed

section \<open>Properties of Open\<close>

text \<open>
  C7. For every positive offset, when the pipe is created and the range reader is
  obtained with content encoding gzip, \<^verbatim>\<open>Open\<close> returns the range error; it closes the
  object reader, closes both pipe ends and invokes the cancellation function, and the
  background copy task is never started.
\<close>

theorem Open_gzip_offset_fails:
  assumes "0 < sint offset"
  shows "Open None (Inr ''gzip'') offset =
           (Some (ErrRangeGzip offset),
            [ObjectReaderClosed, PipeReaderClosed, PipeWriterClosed, CancelInvoked]) \<and>
         CopyTaskStarted \<notin> set (snd (Open None (Inr ''gzip'') offset))"
  using assms by (simp add: Open_def)

theorem Open_gzip_offset_fails_witness:
  "0 < sint (5 :: 64 word) \<and>
   Open None (Inr ''gzip'') 5 =
     (Some (ErrRangeGzip 5),
      [ObjectReaderClosed, PipeReaderClosed, PipeWriterClosed, CancelInvoked])"
proof -
  have h: "0 < sint (5 :: 64 word)" by simp
  from Open_gzip_offset_fails[OF h] h show ?thesis by simp
qed

section \<open>Properties of Walk\<close>








section \<open>Properties of Stat and Rename\<close>

lemmas string_defs =
  HasPrefix_def HasSuffix_def TrimPrefix_def TrimSuffix_def getPrefix_def resolve_def
  dirMimeType_def

lemmas service_defs =
  headObject_def listObjects_def writeObject_def copyObject_def deleteObject_def
  serviceAnswer_def fault_def logCall_def lookupObject_def listEntries_def
  preconditionHolds_def pluginSetModificationTime_def pluginRemoveMetadata_def
  getFolderModTimes_def

lemma headObject_frame: "sameStore w (snd (headObject w name))"
  by (simp add: headObject_def sameStore_def mutations_def logCall_def split: option.splits)

lemma listObjects_frame: "sameStore w (snd (listObjects w p d n))"
  by (simp add: listObjects_def sameStore_def mutations_def logCall_def split: option.splits)

lemma sameStore_trans: "sameStore a b \<Longrightarrow> sameStore b c \<Longrightarrow> sameStore a c"
  by (simp add: sameStore_def)

lemma hasContents_frame: "sameStore w (snd (hasContents w name))"
  using listObjects_frame[of w "getPrefix name" False 2]
  by (auto simp: hasContents_def Let_def split: prod.splits pager.splits)

lemma getObjectStat_frame: "sameStore w (snd (getObjectStat w name))"
proof -
  obtain r w1 where h: "headObject w name = (r, w1)"
    by (cases "headObject w name")
  have s1: "sameStore w w1" using headObject_frame[of w name] h by simp
  obtain hr w2 where c: "hasContents w1 name = (hr, w2)"
    by (cases "hasContents w1 name")
  have s2: "sameStore w w2"
    using hasContents_frame[of w1 name] c s1 by (auto intro: sameStore_trans)
  obtain r2 w3 where h2: "headObject w2 (name @ ''/'') = (r2, w3)"
    by (cases "headObject w2 (name @ ''/'')")
  have s3: "sameStore w w3"
    using headObject_frame[of w2 "name @ ''/''"] h2 s2 by (auto intro: sameStore_trans)
  show ?thesis using h c h2 s1 s2 s3
    by (auto simp: getObjectStat_def Let_def split: sum.splits option.splits prod.splits)
qed

lemma mkPager_first: "\<exists>nxt. mkPager (Suc n) xs = Page (take (Suc n) xs) nxt"
  by (subst mkPager.simps) simp

lemma hasContents_ok:
  assumes "fault w = None"
  shows "fst (hasContents w name) =
          (hasContentsObjects (getPrefix name)
             (take 2 (listEntries (bucket w) (getPrefix name) False)), None)"
proof -
  obtain nxt where "mkPager 2 (listEntries (bucket w) (getPrefix name) False)
      = Page (take 2 (listEntries (bucket w) (getPrefix name) False)) nxt"
    using mkPager_first[of 1 "listEntries (bucket w) (getPrefix name) False"]
    by (auto simp: numeral_2_eq_2)
  then show ?thesis using assms
    by (simp add: hasContents_def listObjects_def Let_def)
qed

lemma getObjectStat_virtual_directory:
  assumes "faults w (length (calls w)) = None"
      and "faults w (Suc (length (calls w))) = None"
      and "lookupObject (bucket w) name = None"
      and "hasContentsObjects (getPrefix name)
             (take 2 (listEntries (bucket w) (getPrefix name) False))"
  shows "fst (getObjectStat w name) = Inr (NewFileInfo name True 0 0)"
proof -
  let ?w1 = "logCall (HeadObject name) (Some ErrObjectNotExist) w"
  have h: "headObject w name = (Inl ErrObjectNotExist, ?w1)"
    using assms(1,3) by (simp add: headObject_def fault_def)
  have f1: "fault ?w1 = None" using assms(2) by (simp add: fault_def logCall_def)
  have b1: "bucket ?w1 = bucket w" by (simp add: logCall_def)
  from hasContents_ok[OF f1, of name] assms(4) b1
  have hc: "fst (hasContents ?w1 name) = (True, None)" by simp
  show ?thesis
    using h hc
    by (auto simp: getObjectStat_def Let_def IsNotExist_def updateFileInfoModTime_def
        NewFileInfo_def split: prod.splits)
qed

lemma sample_listing:
  "take 2 (listEntries (bucket sampleWorld) (getPrefix ''a/c'') False) =
     [obj ''a/c/d.txt'' 5 ''text/plain'']"
  by (simp add: sampleWorld_def listEntries_def obj_def string_defs)

lemma sample_contents:
  "hasContentsObjects (getPrefix ''a/c'')
     (take 2 (listEntries (bucket sampleWorld) (getPrefix ''a/c'') False))"
  unfolding sample_listing by (simp add: obj_def string_defs)

lemma sample_absent: "lookupObject (bucket sampleWorld) ''a/c'' = None"
  by (simp add: sampleWorld_def lookupObject_def obj_def)







text \<open>
  C10. \<^verbatim>\<open>Rename\<close> of a path onto itself returns the counters (-1, -1) and no error,
  whatever the fuel and the rename mode, and leaves the world as it was: no call is
  made. The sentinel -1 is not the counter 0 of the other outcomes without progress.
\<close>

theorem Rename_same_path:
  "Rename fuel renameMode w source source = Some ((- 1, - 1, None), w) \<and>
   (- 1 :: 64 word) \<noteq> 0"
  by (simp add: Rename_def)

theorem Rename_same_path_witness:
  "Rename 0 1 sampleWorld ''a/c'' ''a/c'' = Some ((- 1, - 1, None), sampleWorld) \<and>
   calls sampleWorld = []"
  using Rename_same_path[of 0 1 sampleWorld "''a/c''"] by (simp add: sampleWorld_def)

lemma Rename_nonempty_dir:
  assumes "source \<noteq> target"
      and "getObjectStat w source = (Inr fi, w1)"
      and "fi_isDir fi"
      and "hasContents w1 source = ((True, None), w2)"
  shows "Rename (Suc fuel) 0 w source target =
           Some ((0, 0, Some (ErrNonEmptyRename source)), w2) \<and>
         bucket w2 = bucket w \<and> overlay w2 = overlay w \<and> mutations w2 = mutations w"
proof -
  have "sameStore w w1" using getObjectStat_frame[of w source] assms(2) by simp
  moreover have "sameStore w1 w2" using hasContents_frame[of w1 source] assms(4) by simp
  ultimately have "sameStore w w2" by (rule sameStore_trans)
  then show ?thesis using assms by (simp add: Rename_def sameStore_def)
qed

text \<open>
  C3. In the fail-on-non-empty mode (\<^verbatim>\<open>renameMode\<close> 0), when the source is a
  directory and the bounded listing reports it non-empty, \<^verbatim>\<open>renameInternal\<close> returns
  the counters (0, 0) with the non-empty-directory error, and so does \<^verbatim>\<open>Rename\<close> of
  a source that stats as that directory onto another path. The bucket and the plugin's
  records are those before the call, and no writing call was made: no marker is
  created, nothing is copied or deleted.
\<close>

theorem Rename_nonempty_dir_fail_mode:
  assumes "fi_isDir fi"
      and "hasContents w1 source = ((True, None), w2)"
  shows "renameInternal (Suc fuel) 0 w1 source target fi =
           Some ((0, 0, Some (ErrNonEmptyRename source)), w2) \<and>
         bucket w2 = bucket w1 \<and> overlay w2 = overlay w1 \<and> mutations w2 = mutations w1 \<and>
         (source \<noteq> target \<and> getObjectStat w source = (Inr fi, w1) \<longrightarrow>
            Rename (Suc fuel) 0 w source target =
              Some ((0, 0, Some (ErrNonEmptyRename source)), w2) \<and>
            bucket w2 = bucket w \<and> overlay w2 = overlay w \<and> mutations w2 = mutations w)"
proof -
  have "sameStore w1 w2" using hasContents_frame[of w1 source] assms(2) by simp
  then have "bucket w2 = bucket w1 \<and> overlay w2 = overlay w1 \<and> mutations w2 = mutations w1"
    by (simp add: sameStore_def)
  moreover have "renameInternal (Suc fuel) 0 w1 source target fi =
           Some ((0, 0, Some (ErrNonEmptyRename source)), w2)"
    using assms by simp
  ultimately show ?thesis using Rename_nonempty_dir[OF _ _ assms] by blast
qed

theorem Rename_nonempty_dir_fail_mode_witness:
  "map_option fst (Rename (Suc 0) 0 sampleWorld ''a/c'' ''a/cc'') =
     Some (0, 0, Some (ErrNonEmptyRename ''a/c'')) \<and>
   map_option (\<lambda>r. bucket (snd r)) (Rename (Suc 0) 0 sampleWorld ''a/c'' ''a/cc'') =
     Some (bucket sampleWorld) \<and>
   map_option (\<lambda>r. mutations (snd r)) (Rename (Suc 0) 0 sampleWorld ''a/c'' ''a/cc'') =
     Some []"
proof -
  let ?fi = "NewFileInfo ''a/c'' True 0 0"
  let ?w1 = "snd (getObjectStat sampleWorld ''a/c'')"
  let ?w2 = "snd (hasContents ?w1 ''a/c'')"
  have f1: "faults sampleWorld (length (calls sampleWorld)) = None"
    by (simp add: sampleWorld_def)
  have f2: "faults sampleWorld (Suc (length (calls sampleWorld))) = None"
    by (simp add: sampleWorld_def)
  have "fst (getObjectStat sampleWorld ''a/c'') = Inr ?fi"
    using getObjectStat_virtual_directory[OF f1 f2 sample_absent sample_contents] .
  then have a: "getObjectStat sampleWorld ''a/c'' = (Inr ?fi, ?w1)"
    by (simp add: prod_eq_iff)
  have s1: "sameStore sampleWorld ?w1" by (rule getObjectStat_frame)
  have "faults ?w1 = faults sampleWorld" using s1 by (simp add: sameStore_def)
  then have fw: "fault ?w1 = None" by (simp add: fault_def sampleWorld_def)
  have "fst (hasContents ?w1 ''a/c'') = (True, None)"
    using hasContents_ok[OF fw, of "''a/c''"] s1 sample_contents by (simp add: sameStore_def)
  then have b: "hasContents ?w1 ''a/c'' = ((True, None), ?w2)"
    by (simp add: prod_eq_iff)
  have d: "fi_isDir ?fi" by (simp add: NewFileInfo_def)
  have ne: "''a/c'' \<noteq> ''a/cc''" by simp
  have "Rename (Suc 0) 0 sampleWorld ''a/c'' ''a/cc'' =
          Some ((0, 0, Some (ErrNonEmptyRename ''a/c'')), ?w2) \<and>
        bucket ?w2 = bucket sampleWorld \<and> mutations ?w2 = mutations sampleWorld"
    using Rename_nonempty_dir_fail_mode[OF d b, of 0 "''a/cc''" sampleWorld] ne a by blast
  then show ?thesis by (simp add: mutations_def sampleWorld_def)
qed

section \<open>Properties of the rename of a file\<close>

lemmas adapter_defs =
  copyFileInternal_def renameFinish_def Remove_def hasContents_def mkdirInternal_def
  fsReadDir_def getObjectStat_def IsNotExist_def updateFileInfoModTime_def ensureAbsPath_def

lemma headObject_snd:
  "snd (headObject w n) = logCall (HeadObject n) (headAnswer (fst (headObject w n))) w"
  by (simp add: headObject_def headAnswer_def split: option.splits)

lemma headObject_found:
  "fst (headObject w n) = Inr a \<Longrightarrow> lookupObject (bucket w) n = Some a"
  by (simp add: headObject_def split: option.splits)

lemma copyObject_calls:
  "calls (snd (copyObject w s t c ct)) = calls w @ [(CopyObject s t c, fst (copyObject w s t c ct))]"
  by (simp add: copyObject_def logCall_def Let_def split: option.splits prod.splits)

lemma copyObject_meta:
  "hasMetadater (snd (copyObject w s t c ct)) = hasMetadater w"
  by (simp add: copyObject_def logCall_def Let_def split: option.splits prod.splits)

lemma copyObject_failed:
  "fst (copyObject w s t c ct) \<noteq> None \<Longrightarrow> bucket (snd (copyObject w s t c ct)) = bucket w"
  by (auto simp: copyObject_def logCall_def Let_def split: option.splits prod.splits)

lemma setModTime_calls:
  "calls (snd (pluginSetModificationTime w p t)) =
     calls w @ [(SetModificationTime p t, fst (pluginSetModificationTime w p t))]"
  by (simp add: pluginSetModificationTime_def logCall_def Let_def)

lemma setModTime_meta:
  "hasMetadater (snd (pluginSetModificationTime w p t)) = hasMetadater w"
  by (simp add: pluginSetModificationTime_def logCall_def Let_def)

lemma deleteObject_calls:
  "calls (snd (deleteObject w n c)) = calls w @ [(DeleteObject n c, fst (deleteObject w n c))]"
  by (simp add: deleteObject_def logCall_def Let_def)

lemma deleteObject_meta:
  "hasMetadater (snd (deleteObject w n c)) = hasMetadater w"
  by (simp add: deleteObject_def logCall_def Let_def)

lemma removeMetadata_calls:
  "calls (snd (pluginRemoveMetadata w p)) =
     calls w @ [(RemoveMetadata p, fst (pluginRemoveMetadata w p))]"
  by (simp add: pluginRemoveMetadata_def logCall_def Let_def)

lemma Remove_file:
  "\<exists>hs c d rm.
     calls (snd (Remove w name False)) =
       calls w @ [(HeadObject name, hs), (DeleteObject name c, d)] @ rm \<and>
     (if hasMetadater w \<and> d = None
      then (\<exists>x. rm = [(RemoveMetadata (ensureAbsPath name), x)])
      else rm = []) \<and>
     fst (Remove w name False) = d"
proof -
  let ?h = "headObject w name"
  let ?c = "case fst ?h of Inr attrs \<Rightarrow> GenerationMatch (Generation attrs) | Inl e \<Rightarrow> NoCondition"
  let ?d = "deleteObject (snd ?h) name ?c"
  have c1: "calls (snd ?h) = calls w @ [(HeadObject name, headAnswer (fst ?h))]"
    by (simp add: headObject_snd logCall_def)
  have m1: "hasMetadater (snd ?h) = hasMetadater w"
    by (simp add: headObject_snd logCall_def)
  have c2: "calls (snd ?d) = calls w @ [(HeadObject name, headAnswer (fst ?h)), (DeleteObject name ?c, fst ?d)]"
    by (simp add: deleteObject_calls c1)
  have m2: "hasMetadater (snd ?d) = hasMetadater w"
    by (simp add: deleteObject_meta m1)
  show ?thesis
  proof (cases "hasMetadater w \<and> fst ?d = None")
    case True
    then have "calls (snd (Remove w name False)) =
        calls w @ [(HeadObject name, headAnswer (fst ?h)), (DeleteObject name ?c, fst ?d)] @
          [(RemoveMetadata (ensureAbsPath name), fst (pluginRemoveMetadata (snd ?d) (ensureAbsPath name)))]"
      and "fst (Remove w name False) = fst ?d"
      using c2 m2 by (simp_all add: Remove_def Let_def removeMetadata_calls split_beta)
    with True show ?thesis
      apply -
      apply (rule exI[of _ "headAnswer (fst ?h)"])
      apply (rule exI[of _ ?c])
      apply (rule exI[of _ "fst ?d"])
      apply (rule exI[of _ "[(RemoveMetadata (ensureAbsPath name),
                 fst (pluginRemoveMetadata (snd ?d) (ensureAbsPath name)))]"])
      by simp
  next
    case False
    then have "calls (snd (Remove w name False)) =
        calls w @ [(HeadObject name, headAnswer (fst ?h)), (DeleteObject name ?c, fst ?d)] @ []"
      and "fst (Remove w name False) = fst ?d"
      using c2 m2 by (auto simp add: Remove_def Let_def split_beta)
    with False show ?thesis
      apply -
      apply (rule exI[of _ "headAnswer (fst ?h)"])
      apply (rule exI[of _ ?c])
      apply (rule exI[of _ "fst ?d"])
      apply (rule exI[of _ "[]"])
      by auto
  qed
qed


lemma copyFileInternal_calls:
  "\<exists>h c. calls (snd (copyFileInternal w source target)) =
            calls w @ [(HeadObject target, h), (CopyObject source target c, fst (copyFileInternal w source target))] \<and>
          destinationCondition (bucket w) target h c \<and>
          hasMetadater (snd (copyFileInternal w source target)) = hasMetadater w \<and>
          (fst (copyFileInternal w source target) \<noteq> None \<longrightarrow>
             bucket (snd (copyFileInternal w source target)) = bucket w)"
proof -
  let ?h = "headObject w target"
  let ?c = "case fst ?h of Inr attrs \<Rightarrow> GenerationMatch (Generation attrs)
            | Inl e \<Rightarrow> if IsNotExist (Some e) then DoesNotExist else NoCondition"
  have e: "copyFileInternal w source target =
             copyObject (snd ?h) source target ?c (contentTypeOf (snd ?h) source)"
    by (simp add: copyFileInternal_def Let_def split_beta)
  have c1: "calls (snd ?h) = calls w @ [(HeadObject target, headAnswer (fst ?h))]"
    and b1: "bucket (snd ?h) = bucket w" and m1: "hasMetadater (snd ?h) = hasMetadater w"
    by (simp_all add: headObject_snd logCall_def)
  have dc: "destinationCondition (bucket w) target (headAnswer (fst ?h)) ?c"
    by (cases "fst ?h")
       (auto simp: destinationCondition_def headAnswer_def IsNotExist_def dest: headObject_found)
  show ?thesis
    unfolding e
    using c1 b1 m1 dc copyObject_failed[of "snd ?h" source target ?c "contentTypeOf (snd ?h) source"]
    apply -
    apply (rule exI[of _ "headAnswer (fst ?h)"])
    apply (rule exI[of _ ?c])
    by (simp add: copyObject_calls copyObject_meta)
qed

text \<open>
  C4, as stated, fails: when the head of the target is refused (status 403, neither
  found nor not-found), the copy is made with no destination precondition, although
  the target does not exist.
\<close>

theorem renameInternal_unconditional_copy_counterexample:
  "lookupObject (bucket deniedWorld) ''a/z.txt'' = None \<and>
   resultCalls (renameInternal (Suc 0) 0 deniedWorld ''a/b.txt'' ''a/z.txt''
       (NewFileInfo ''a/b.txt'' False 10 0)) =
     Some [(HeadObject ''a/z.txt'', Some (GoogleApiError 403)),
           (CopyObject ''a/b.txt'' ''a/z.txt'' NoCondition, None),
           (HeadObject ''a/b.txt'', None),
           (DeleteObject ''a/b.txt'' (GenerationMatch 1), None)]"
  by (simp add: resultCalls_def deniedWorld_def sampleWorld_def adapter_defs service_defs
      NewFileInfo_def obj_def Let_def)

text \<open>
  C4, amended. A rename of a regular file returns (one nested call is enough) after
  these calls, in order: the head of the target; the copy of source to target with the
  destination precondition that follows from the head's answer (generation match when
  the target was found, must-not-exist when it was not found, none when the head failed
  otherwise). When the copy fails, its error is returned with the counters (0, 0),
  nothing else is called and the bucket is unchanged. When the copy succeeds, the
  counters are 1 and the size of the source; then the modification time of the target
  is set through the plugin exactly when a plugin is present, whatever the plugin
  answers; then the source is headed and deleted; then the plugin is asked to remove
  the metadata of the source exactly when a plugin is present and the delete succeeded,
  and nothing more is called; the returned error is that of the delete, except that
  not-found counts as success.
\<close>

theorem renameInternal_file:
  assumes "\<not> fi_isDir fi"
  shows "\<exists>h c a rest n z err w'.
     renameInternal (Suc fuel) renameMode w source target fi = Some ((n, z, err), w') \<and>
     calls w' = calls w @ [(HeadObject target, h), (CopyObject source target c, a)] @ rest \<and>
     destinationCondition (bucket w) target h c \<and>
     (a \<noteq> None \<longrightarrow> n = 0 \<and> z = 0 \<and> err = a \<and> rest = [] \<and> bucket w' = bucket w) \<and>
     (a = None \<longrightarrow> n = 1 \<and> z = fi_size fi \<and>
        (\<exists>sm hs cs d rm.
           rest = sm @ [(HeadObject source, hs), (DeleteObject source cs, d)] @ rm \<and>
           (if hasMetadater w
            then (\<exists>x. sm = [(SetModificationTime (ensureAbsPath target) (fi_modTime fi), x)])
            else sm = []) \<and>
           (if hasMetadater w \<and> d = None
            then (\<exists>x. rm = [(RemoveMetadata (ensureAbsPath source), x)])
            else rm = []) \<and>
           err = (if IsNotExist d then None else d)))"
proof -
  let ?cp = "copyFileInternal w source target"
  obtain h c where cc: "calls (snd ?cp) =
            calls w @ [(HeadObject target, h), (CopyObject source target c, fst ?cp)]"
     and dc: "destinationCondition (bucket w) target h c"
     and m: "hasMetadater (snd ?cp) = hasMetadater w"
     and fb: "fst ?cp \<noteq> None \<longrightarrow> bucket (snd ?cp) = bucket w"
    using copyFileInternal_calls[of w source target] by blast
  show ?thesis
  proof (cases "fst ?cp")
    case (Some e)
    then have "renameInternal (Suc fuel) renameMode w source target fi = Some ((0, 0, Some e), snd ?cp)"
      using assms by (simp add: split_beta)
    with cc dc fb Some show ?thesis
      apply -
      apply (rule exI[of _ h])
      apply (rule exI[of _ c])
      apply (rule exI[of _ "Some e"])
      apply (rule exI[of _ "[]"])
      apply (rule exI[of _ 0])
      apply (rule exI[of _ 0])
      apply (rule exI[of _ "Some e"])
      apply (rule exI[of _ "snd ?cp"])
      by simp
  next
    case None
    let ?w2 = "if hasMetadater w
               then snd (pluginSetModificationTime (snd ?cp) (ensureAbsPath target) (fi_modTime fi))
               else snd ?cp"
    let ?sm = "if hasMetadater w
               then [(SetModificationTime (ensureAbsPath target) (fi_modTime fi),
                      fst (pluginSetModificationTime (snd ?cp) (ensureAbsPath target) (fi_modTime fi)))]
               else []"
    have c2: "calls ?w2 = calls (snd ?cp) @ ?sm" by (simp add: setModTime_calls)
    have m2: "hasMetadater ?w2 = hasMetadater w" by (simp add: setModTime_meta m)
    obtain hs cs d rm where rc: "calls (snd (Remove ?w2 source False)) =
         calls ?w2 @ [(HeadObject source, hs), (DeleteObject source cs, d)] @ rm"
      and rm: "if hasMetadater ?w2 \<and> d = None
               then (\<exists>x. rm = [(RemoveMetadata (ensureAbsPath source), x)])
               else rm = []"
      and rd: "fst (Remove ?w2 source False) = d"
      using Remove_file[of ?w2 source] by blast
    have r: "renameInternal (Suc fuel) renameMode w source target fi =
               Some ((1, fi_size fi, if IsNotExist d then None else d), snd (Remove ?w2 source False))"
      using assms None m rd by (simp add: split_beta renameFinish_def Let_def)
    have cw: "calls (snd (Remove ?w2 source False)) =
         calls w @ [(HeadObject target, h), (CopyObject source target c, None)] @
           (?sm @ [(HeadObject source, hs), (DeleteObject source cs, d)] @ rm)"
      using rc c2 cc None by simp
    have smp: "if hasMetadater w
            then (\<exists>x. ?sm = [(SetModificationTime (ensureAbsPath target) (fi_modTime fi), x)])
            else ?sm = []" by simp
    have inner: "\<exists>sm hs' cs' d' rm'.
           ?sm @ [(HeadObject source, hs), (DeleteObject source cs, d)] @ rm =
             sm @ [(HeadObject source, hs'), (DeleteObject source cs', d')] @ rm' \<and>
           (if hasMetadater w
            then (\<exists>x. sm = [(SetModificationTime (ensureAbsPath target) (fi_modTime fi), x)])
            else sm = []) \<and>
           (if hasMetadater w \<and> d' = None
            then (\<exists>x. rm' = [(RemoveMetadata (ensureAbsPath source), x)])
            else rm' = []) \<and>
           (if IsNotExist d then None else d) = (if IsNotExist d' then None else d')"
      apply (rule exI[of _ ?sm])
      apply (rule exI[of _ hs])
      apply (rule exI[of _ cs])
      apply (rule exI[of _ d])
      apply (rule exI[of _ rm])
      using rm m2 smp by simp
    show ?thesis
      apply (rule exI[of _ h])
      apply (rule exI[of _ c])
      apply (rule exI[of _ None])
      apply (rule exI[of _ "?sm @ [(HeadObject source, hs), (DeleteObject source cs, d)] @ rm"])
      apply (rule exI[of _ 1])
      apply (rule exI[of _ "fi_size fi"])
      apply (rule exI[of _ "if IsNotExist d then None else d"])
      apply (rule exI[of _ "snd (Remove ?w2 source False)"])
      using r cw dc inner by simp
  qed
qed


theorem renameInternal_file_witness:
  "\<not> fi_isDir (NewFileInfo ''a/b.txt'' False 10 7) \<and>
   (\<exists>h c a rest w'.
      map_option snd (renameInternal (Suc 0) 0 (sampleWorld\<lparr>hasMetadater := True\<rparr>)
          ''a/b.txt'' ''a/z.txt'' (NewFileInfo ''a/b.txt'' False 10 7)) = Some w' \<and>
      calls w' = [(HeadObject ''a/z.txt'', h), (CopyObject ''a/b.txt'' ''a/z.txt'' c, a)] @ rest \<and>
      destinationCondition (bucket sampleWorld) ''a/z.txt'' h c) \<and>
   resultCalls (renameInternal (Suc 0) 0 (sampleWorld\<lparr>hasMetadater := True\<rparr>)
       ''a/b.txt'' ''a/z.txt'' (NewFileInfo ''a/b.txt'' False 10 7)) =
     Some [(HeadObject ''a/z.txt'', Some ErrObjectNotExist),
           (CopyObject ''a/b.txt'' ''a/z.txt'' DoesNotExist, None),
           (SetModificationTime ''/a/z.txt'' 7, None),
           (HeadObject ''a/b.txt'', None),
           (DeleteObject ''a/b.txt'' (GenerationMatch 1), None),
           (RemoveMetadata ''/a/b.txt'', None)] \<and>
   resultCounters (renameInternal (Suc 0) 0 (sampleWorld\<lparr>hasMetadater := True\<rparr>)
       ''a/b.txt'' ''a/z.txt'' (NewFileInfo ''a/b.txt'' False 10 7)) = Some (1, 10, None)"
proof -
  let ?w = "sampleWorld\<lparr>hasMetadater := True\<rparr>"
  let ?fi = "NewFileInfo ''a/b.txt'' False 10 7"
  have h: "\<not> fi_isDir ?fi" by (simp add: NewFileInfo_def)
  have c0: "calls ?w = []" and b0: "bucket ?w = bucket sampleWorld"
    by (simp_all add: sampleWorld_def)
  from renameInternal_file[OF h, of 0 0 ?w "''a/b.txt''" "''a/z.txt''"]
  have ex: "\<exists>h c a rest w'.
      map_option snd (renameInternal (Suc 0) 0 ?w ''a/b.txt'' ''a/z.txt'' ?fi) = Some w' \<and>
      calls w' = [(HeadObject ''a/z.txt'', h), (CopyObject ''a/b.txt'' ''a/z.txt'' c, a)] @ rest \<and>
      destinationCondition (bucket sampleWorld) ''a/z.txt'' h c"
    unfolding c0 b0 by (elim exE conjE) (auto simp del: renameInternal.simps)
  have ev: "resultCalls (renameInternal (Suc 0) 0 ?w ''a/b.txt'' ''a/z.txt'' ?fi) =
     Some [(HeadObject ''a/z.txt'', Some ErrObjectNotExist),
           (CopyObject ''a/b.txt'' ''a/z.txt'' DoesNotExist, None),
           (SetModificationTime ''/a/z.txt'' 7, None),
           (HeadObject ''a/b.txt'', None),
           (DeleteObject ''a/b.txt'' (GenerationMatch 1), None),
           (RemoveMetadata ''/a/b.txt'', None)]"
    by (simp add: resultCalls_def sampleWorld_def adapter_defs service_defs
        NewFileInfo_def obj_def Let_def IsAbs_def pathJoin_def Clean_def cleanElem_def)
  have cn: "resultCounters (renameInternal (Suc 0) 0 ?w ''a/b.txt'' ''a/z.txt'' ?fi) =
     Some (1, 10, None)"
    by (simp add: resultCounters_def sampleWorld_def adapter_defs service_defs
        NewFileInfo_def obj_def Let_def IsAbs_def pathJoin_def Clean_def cleanElem_def)
  from h ex ev cn show ?thesis by blast
qed

section \<open>Properties of the recursive rename\<close>

lemmas eval_defs =
  sampleWorld_def adapter_defs service_defs string_defs obj_def Let_def NewFileInfo_def
  ReadDir_def readDirEntry_def mkPager.simps defaultGCSPageSize_def prefixEntry_def
  Join_def pathJoin_def Clean_def cleanElem_def IsAbs_def

text \<open>
  C5, on the code. The bucket holds \<^verbatim>\<open>a/c/d.txt\<close> (5 bytes) and \<^verbatim>\<open>a/c/e.txt\<close>
  (7 bytes), and \<^verbatim>\<open>Rename\<close> of the directory \<^verbatim>\<open>a\<close> to \<^verbatim>\<open>z\<close> runs in the recursive mode
  (\<^verbatim>\<open>renameMode\<close> 1) while the service fails the copy of \<^verbatim>\<open>a/c/e.txt\<close>. By then
  \<^verbatim>\<open>a/c/d.txt\<close> has been copied to \<^verbatim>\<open>z/c/d.txt\<close> and deleted from the source: one
  descendant file, 5 bytes, has been copied. The rename of the subdirectory returns
  nothing of that to its parent's loop, which drops the counters of a child that fails:
  \<^verbatim>\<open>Rename\<close> returns the counters (0, 0) with the error. The same failure met one level
  lower, by \<^verbatim>\<open>Rename\<close> of \<^verbatim>\<open>a/c\<close> to \<^verbatim>\<open>z/c\<close>, is returned with the counters (1, 5).
\<close>

theorem Rename_recursive_drops_counters:
  "resultCounters (Rename 3 1 (failingWorld 11) ''a'' ''z'') =
     Some (0, 0, Some (GoogleApiError 500)) \<and>
   resultCalls (Rename 3 1 (failingWorld 11) ''a'' ''z'') =
     Some [(HeadObject ''a'', Some ErrObjectNotExist),
           (ListObjects ''a/'' False 2, None),
           (WriteObject ''z/'' DoesNotExist ''inode/directory'', None),
           (ListObjects ''a/'' True 5000, None),
           (WriteObject ''z/c/'' DoesNotExist ''inode/directory'', None),
           (ListObjects ''a/c/'' True 5000, None),
           (HeadObject ''z/c/d.txt'', Some ErrObjectNotExist),
           (CopyObject ''a/c/d.txt'' ''z/c/d.txt'' DoesNotExist, None),
           (HeadObject ''a/c/d.txt'', None),
           (DeleteObject ''a/c/d.txt'' (GenerationMatch 1), None),
           (HeadObject ''z/c/e.txt'', Some ErrObjectNotExist),
           (CopyObject ''a/c/e.txt'' ''z/c/e.txt'' DoesNotExist, Some (GoogleApiError 500))] \<and>
   resultKeys (Rename 3 1 (failingWorld 11) ''a'' ''z'') =
     Some [''a/c/e.txt'', ''z/'', ''z/c/'', ''z/c/d.txt''] \<and>
   resultCopied (Rename 3 1 (failingWorld 11) ''a'' ''z'') = Some 1 \<and>
   resultCounters (Rename 2 1 (failingWorld 9) ''a/c'' ''z/c'') =
     Some (1, 5, Some (GoogleApiError 500))"
proof -
  have c: "resultCounters (Rename 3 1 (failingWorld 11) ''a'' ''z'') =
      Some (0, 0, Some (GoogleApiError 500))"
    by (simp add: numeral_3_eq_3 resultCounters_def failingWorld_def Rename_def eval_defs)
  have l: "resultCalls (Rename 3 1 (failingWorld 11) ''a'' ''z'') =
     Some [(HeadObject ''a'', Some ErrObjectNotExist),
           (ListObjects ''a/'' False 2, None),
           (WriteObject ''z/'' DoesNotExist ''inode/directory'', None),
           (ListObjects ''a/'' True 5000, None),
           (WriteObject ''z/c/'' DoesNotExist ''inode/directory'', None),
           (ListObjects ''a/c/'' True 5000, None),
           (HeadObject ''z/c/d.txt'', Some ErrObjectNotExist),
           (CopyObject ''a/c/d.txt'' ''z/c/d.txt'' DoesNotExist, None),
           (HeadObject ''a/c/d.txt'', None),
           (DeleteObject ''a/c/d.txt'' (GenerationMatch 1), None),
           (HeadObject ''z/c/e.txt'', Some ErrObjectNotExist),
           (CopyObject ''a/c/e.txt'' ''z/c/e.txt'' DoesNotExist, Some (GoogleApiError 500))]"
    by (simp add: numeral_3_eq_3 resultCalls_def failingWorld_def Rename_def eval_defs)
  have k: "resultKeys (Rename 3 1 (failingWorld 11) ''a'' ''z'') =
     Some [''a/c/e.txt'', ''z/'', ''z/c/'', ''z/c/d.txt'']"
    by (simp add: numeral_3_eq_3 resultKeys_def failingWorld_def Rename_def eval_defs)
  have n: "resultCopied (Rename 3 1 (failingWorld 11) ''a'' ''z'') = Some 1"
    by (simp add: numeral_3_eq_3 resultCopied_def copied_def failingWorld_def Rename_def
        eval_defs)
  have b: "resultCounters (Rename 2 1 (failingWorld 9) ''a/c'' ''z/c'') =
     Some (1, 5, Some (GoogleApiError 500))"
    by (simp add: numeral_2_eq_2 resultCounters_def failingWorld_def Rename_def eval_defs)
  from c l k n b show ?thesis by simp
qed

section \<open>Properties of the path resolver\<close>

lemma splitSlash_nonempty: "splitSlash s \<noteq> []"
  by (induction s) (auto split: list.splits)

lemma splitSlash_append:
  "splitSlash (a @ CHR ''/'' # b) = splitSlash a @ splitSlash b"
proof (induction a)
  case Nil
  show ?case by simp
next
  case (Cons c a)
  obtain x xs where sa: "splitSlash a = x # xs"
    using splitSlash_nonempty[of a] by (cases "splitSlash a") auto
  show ?case using Cons sa by simp
qed

lemma splitSlash_noslash: "x \<in> set (splitSlash s) \<Longrightarrow> CHR ''/'' \<notin> set x"
proof (induction s arbitrary: x)
  case Nil
  then show ?case by simp
next
  case (Cons c s)
  obtain y ys where sa: "splitSlash s = y # ys"
    using splitSlash_nonempty[of s] by (cases "splitSlash s") auto
  show ?case
  proof (cases "c = CHR ''/''")
    case True
    with Cons show ?thesis by auto
  next
    case False
    with Cons.prems sa have "x = c # y \<or> x \<in> set ys" by auto
    then show ?thesis using Cons.IH[of y] Cons.IH[of x] sa False by auto
  qed
qed

lemma splitSlash_single: "CHR ''/'' \<notin> set x \<Longrightarrow> splitSlash x = [x]"
  by (induction x) auto

lemma joinSlash_Cons: "ys \<noteq> [] \<Longrightarrow> joinSlash (x # ys) = x @ CHR ''/'' # joinSlash ys"
  by (cases ys) auto

lemma joinSlash_append:
  "xs \<noteq> [] \<Longrightarrow> ys \<noteq> [] \<Longrightarrow> joinSlash (xs @ ys) = joinSlash xs @ CHR ''/'' # joinSlash ys"
proof (induction xs)
  case Nil
  then show ?case by simp
next
  case (Cons x xs)
  show ?case
  proof (cases "xs = []")
    case True
    then show ?thesis using Cons.prems by (simp add: joinSlash_Cons)
  next
    case False
    then show ?thesis using Cons by (simp add: joinSlash_Cons)
  qed
qed

lemma split_join:
  "xs \<noteq> [] \<Longrightarrow> \<forall>x \<in> set xs. CHR ''/'' \<notin> set x \<Longrightarrow> splitSlash (joinSlash xs) = xs"
proof (induction xs)
  case Nil
  then show ?case by simp
next
  case (Cons x xs)
  show ?case
  proof (cases "xs = []")
    case True
    then show ?thesis using Cons.prems by (simp add: splitSlash_single)
  next
    case False
    then have "joinSlash (x # xs) = x @ CHR ''/'' # joinSlash xs" by (rule joinSlash_Cons)
    then show ?thesis using Cons False by (simp add: splitSlash_append splitSlash_single)
  qed
qed

lemma foldl_cleanElem:
  "''..'' \<notin> set xs \<Longrightarrow> foldl (cleanElem r) st xs = rev (filter kept xs) @ st"
  by (induction xs arbitrary: st) (auto simp: cleanElem_def kept_def)

lemma joinSlash_empty: "\<forall>x \<in> set xs. x \<noteq> [] \<Longrightarrow> (joinSlash xs = []) = (xs = [])"
  by (induction xs rule: joinSlash.induct) auto

lemma Clean_rooted:
  assumes "IsAbs p" "noDotDot p"
  shows "Clean p = CHR ''/'' # joinSlash (filter kept (splitSlash p))"
  using assms by (auto simp: Clean_def Let_def foldl_cleanElem noDotDot_def IsAbs_def)

lemma Clean_relative:
  assumes "p \<noteq> []" "\<not> IsAbs p" "noDotDot p"
  shows "Clean p = (if filter kept (splitSlash p) = [] then ''.''
                    else joinSlash (filter kept (splitSlash p)))"
proof -
  have "\<forall>x \<in> set (filter kept (splitSlash p)). x \<noteq> []" by (auto simp: kept_def)
  from joinSlash_empty[OF this] show ?thesis
    using assms by (auto simp: Clean_def Let_def foldl_cleanElem noDotDot_def)
qed

lemma join_split: "joinSlash (splitSlash s) = s"
proof (induction s)
  case Nil
  show ?case by simp
next
  case (Cons c s)
  obtain x xs where sa: "splitSlash s = x # xs"
    using splitSlash_nonempty[of s] by (cases "splitSlash s") auto
  have j: "joinSlash ((c # x) # xs) = c # joinSlash (x # xs)" by (cases xs) auto
  show ?case
  proof (cases "c = CHR ''/''")
    case True
    then show ?thesis using Cons sa by (simp add: joinSlash_Cons)
  next
    case False
    then show ?thesis using Cons sa j by simp
  qed
qed

lemma real_join_rel:
  assumes "xs \<noteq> []" "\<forall>x \<in> set xs. realElem x"
  shows "joinSlash xs \<noteq> [] \<and> \<not> IsAbs (joinSlash xs) \<and> joinSlash xs \<noteq> ''.''"
proof -
  obtain x rest where xs: "xs = x # rest" using assms(1) by (cases xs) auto
  then have rx: "realElem x" using assms(2) by simp
  then obtain c cs where x: "x = c # cs" and c: "c \<noteq> CHR ''/''"
    by (cases x) (auto simp: realElem_def)
  show ?thesis
  proof (cases "rest = []")
    case True
    then show ?thesis using xs x c rx by (auto simp: IsAbs_def realElem_def)
  next
    case False
    then have "joinSlash xs = x @ CHR ''/'' # joinSlash rest" using xs by (simp add: joinSlash_Cons)
    then show ?thesis using x c by (auto simp: IsAbs_def)
  qed
qed

lemma real_filter: "\<forall>x \<in> set xs. realElem x \<Longrightarrow> filter kept xs = xs"
  by (induction xs) (auto simp: realElem_def kept_def)

lemma real_noslash: "\<forall>x \<in> set xs. realElem x \<Longrightarrow> \<forall>x \<in> set xs. CHR ''/'' \<notin> set x"
  by (auto simp: realElem_def)

lemma real_nodotdot: "\<forall>x \<in> set xs. realElem x \<Longrightarrow> ''..'' \<notin> set xs"
  by (auto simp: realElem_def)

lemma Clean_real_join:
  assumes "xs \<noteq> []" "\<forall>x \<in> set xs. realElem x"
  shows "Clean (joinSlash xs) = joinSlash xs"
proof -
  have s: "splitSlash (joinSlash xs) = xs"
    using split_join[OF assms(1) real_noslash[OF assms(2)]] .
  have nd: "noDotDot (joinSlash xs)"
    using real_nodotdot[OF assms(2)] by (simp add: noDotDot_def s)
  from real_join_rel[OF assms] Clean_relative[of "joinSlash xs"] nd
  show ?thesis using assms by (simp add: s real_filter)
qed

lemma Clean_rooted_real_join:
  assumes "\<forall>x \<in> set xs. realElem x"
  shows "Clean (CHR ''/'' # joinSlash xs) = CHR ''/'' # joinSlash xs"
proof (cases "xs = []")
  case True
  then show ?thesis by (simp add: Clean_def IsAbs_def cleanElem_def)
next
  case False
  have s0: "splitSlash (joinSlash xs) = xs"
    using split_join[OF False real_noslash[OF assms]] .
  have s: "splitSlash (CHR ''/'' # joinSlash xs) = [] # xs"
    using s0 by simp
  have nd: "noDotDot (CHR ''/'' # joinSlash xs)"
    using real_nodotdot[OF assms] by (simp add: noDotDot_def s0)
  have "IsAbs (CHR ''/'' # joinSlash xs)" by (simp add: IsAbs_def)
  from Clean_rooted[OF this nd] show ?thesis
    using assms by (simp add: s0 real_filter kept_def)
qed

lemma GetRelativePath_plain:
  assumes "\<forall>x \<in> set xs. realElem x"
  shows "GetRelativePath \<lparr>mountPath = [], KeyPrefix = []\<rparr> (joinSlash xs) = CHR ''/'' # joinSlash xs"
proof (cases "xs = []")
  case True
  then show ?thesis by (simp add: GetRelativePath_def Clean_def IsAbs_def)
next
  case False
  from real_join_rel[OF False assms] Clean_real_join[OF False assms]
  show ?thesis by (simp add: GetRelativePath_def Let_def)
qed

lemma GetRelativePath_dot:
  "GetRelativePath \<lparr>mountPath = [], KeyPrefix = []\<rparr> ''.'' = ''/''"
  by (simp add: GetRelativePath_def Clean_def IsAbs_def cleanElem_def Let_def)


lemma real_kept_split:
  assumes "''..'' \<notin> set (splitSlash q)"
  shows "\<forall>x \<in> set (filter kept (splitSlash q)). realElem x"
  using assms splitSlash_noslash[of _ q] by (auto simp: realElem_def kept_def)

lemma TrimPrefix_rel: "\<not> IsAbs s \<Longrightarrow> TrimPrefix s ''/'' = s"
  by (cases s) (auto simp: TrimPrefix_def HasPrefix_def IsAbs_def)

lemma TrimPrefix_abs: "TrimPrefix (CHR ''/'' # s) ''/'' = s"
  by (simp add: TrimPrefix_def HasPrefix_def)

lemma IsAbs_append: "k \<noteq> [] \<Longrightarrow> IsAbs (k @ r) = IsAbs k"
  by (cases k) (auto simp: IsAbs_def)

lemma fold_rooted_real:
  "\<forall>e \<in> set st. realElem e \<Longrightarrow> \<forall>e \<in> set cs. CHR ''/'' \<notin> set e \<Longrightarrow>
   \<forall>e \<in> set (foldl (cleanElem True) st cs). realElem e"
proof (induction cs arbitrary: st)
  case Nil
  then show ?case by simp
next
  case (Cons c cs)
  have "\<forall>e \<in> set (cleanElem True st c). realElem e"
    using Cons.prems by (auto simp: cleanElem_def realElem_def split: list.splits)
  from Cons.IH[OF this] Cons.prems(2) show ?case by simp
qed

lemma normElems_real:
  "\<forall>e \<in> set (normElems (splitSlash q)). realElem e"
  using fold_rooted_real[of "[]" "splitSlash q"] splitSlash_noslash[of _ q]
  by (auto simp: normElems_def)

lemma fold_base:
  "staysBelow (length s1) cs \<Longrightarrow> \<forall>e \<in> set s1. e \<noteq> ''..'' \<Longrightarrow>
   foldl (cleanElem r) (s1 @ base) cs = foldl (cleanElem True) s1 cs @ base"
proof (induction cs arbitrary: s1)
  case Nil
  show ?case by simp
next
  case (Cons c cs)
  show ?case
  proof (cases "c = [] \<or> c = ''.''")
    case True
    then show ?thesis using Cons by (auto simp: cleanElem_def)
  next
    case False
    show ?thesis
    proof (cases "c = ''..''")
      case True
      with Cons.prems(1) obtain x s1' where s1: "s1 = x # s1'" and sb: "staysBelow (length s1') cs"
        by (cases s1) auto
      have x: "x \<noteq> ''..''" and r: "\<forall>e \<in> set s1'. e \<noteq> ''..''" using Cons.prems(2) s1 by auto
      from Cons.IH[OF sb r] show ?thesis using True s1 x by (simp add: cleanElem_def)
    next
      case nd: False
      have sb: "staysBelow (length (c # s1)) cs" using Cons.prems(1) False nd by simp
      have r: "\<forall>e \<in> set (c # s1). e \<noteq> ''..''" using Cons.prems(2) nd by simp
      from Cons.IH[OF sb r] show ?thesis using False nd by (simp add: cleanElem_def)
    qed
  qed
qed

lemma fold_push_real:
  "\<forall>e \<in> set ks. realElem e \<Longrightarrow> foldl (cleanElem r) st ks = rev ks @ st"
  by (induction ks arbitrary: st) (auto simp: cleanElem_def realElem_def)

lemma Clean_abs: "IsAbs p \<Longrightarrow> Clean p = CHR ''/'' # joinSlash (normElems (splitSlash p))"
  by (auto simp: Clean_def Let_def normElems_def IsAbs_def)

lemma real_join_empty: "\<forall>x \<in> set xs. realElem x \<Longrightarrow> (joinSlash xs = []) = (xs = [])"
  by (rule joinSlash_empty) (auto simp: realElem_def)

lemma Clean_rel_inside:
  assumes "p \<noteq> []" "\<not> IsAbs p" "staysBelow 0 (splitSlash p)"
  shows "Clean p = (if normElems (splitSlash p) = [] then ''.''
                    else joinSlash (normElems (splitSlash p)))"
proof -
  have "foldl (cleanElem False) ([] @ []) (splitSlash p) =
          foldl (cleanElem True) [] (splitSlash p) @ []"
    by (rule fold_base) (use assms(3) in auto)
  then have f: "rev (foldl (cleanElem False) [] (splitSlash p)) = normElems (splitSlash p)"
    by (simp add: normElems_def)
  from real_join_empty[OF normElems_real[of p]] show ?thesis
    using assms(1,2) by (simp add: Clean_def Let_def f)
qed

lemma normElems_empty: "normElems [[]] = []"
  by (simp add: normElems_def cleanElem_def)

lemma core_noprefix_inside:
  assumes sb: "staysBelow 0 (splitSlash q)"
  shows "GetRelativePath \<lparr>mountPath = [], KeyPrefix = []\<rparr>
           (ResolvePath \<lparr>mountPath = [], KeyPrefix = []\<rparr> (CHR ''/'' # q)) =
         CHR ''/'' # joinSlash (normElems (splitSlash q))"
proof -
  let ?R = "normElems (splitSlash q)"
  have rR: "\<forall>x \<in> set ?R. realElem x" by (rule normElems_real)
  have rp: "ResolvePath \<lparr>mountPath = [], KeyPrefix = []\<rparr> (CHR ''/'' # q) =
              TrimPrefix (if q = [] then [] else Clean q) ''/''"
    by (simp add: ResolvePath_def IsAbs_def Join_def pathJoin_def TrimPrefix_abs)
  show ?thesis
  proof (cases "q = []")
    case True
    then show ?thesis unfolding rp
      by (simp add: TrimPrefix_def HasPrefix_def GetRelativePath_def Clean_def IsAbs_def
          normElems_empty)
  next
    case False
    show ?thesis
    proof (cases "IsAbs q")
      case True
      have "Clean q = CHR ''/'' # joinSlash ?R" using Clean_abs[OF True] .
      then show ?thesis unfolding rp using False GetRelativePath_plain[OF rR]
        by (simp add: TrimPrefix_abs)
    next
      case nabs: False
      have c: "Clean q = (if ?R = [] then ''.'' else joinSlash ?R)"
        using Clean_rel_inside[OF False nabs sb] .
      show ?thesis
      proof (cases "?R = []")
        case True
        then show ?thesis unfolding rp using False c GetRelativePath_dot
          by (simp add: TrimPrefix_def HasPrefix_def)
      next
        case R: False
        have "TrimPrefix (joinSlash ?R) ''/'' = joinSlash ?R"
          using real_join_rel[OF R rR] by (simp add: TrimPrefix_rel)
        then show ?thesis unfolding rp using False c R GetRelativePath_plain[OF rR]
          by simp
      qed
    qed
  qed
qed

lemma core_prefix_inside:
  assumes sb: "staysBelow 0 (splitSlash q)"
      and ks: "ks \<noteq> []" "\<forall>x \<in> set ks. realElem x"
      and K: "K = joinSlash ks @ ''/''"
  shows "GetRelativePath \<lparr>mountPath = [], KeyPrefix = K\<rparr>
           (ResolvePath \<lparr>mountPath = [], KeyPrefix = K\<rparr> (CHR ''/'' # q)) =
         CHR ''/'' # joinSlash (normElems (splitSlash q))"
proof -
  let ?R = "normElems (splitSlash q)"
  let ?k = "joinSlash ks"
  let ?x = "?k @ CHR ''/'' # CHR ''/'' # q"
  have rR: "\<forall>x \<in> set ?R. realElem x" by (rule normElems_real)
  have rall: "\<forall>x \<in> set (ks @ ?R). realElem x" using ks(2) rR by auto
  have ne: "ks @ ?R \<noteq> []" using ks(1) by simp
  have krel: "?k \<noteq> [] \<and> \<not> IsAbs ?k" using real_join_rel[OF ks] by simp
  have Kne: "K \<noteq> []" using K by simp
  have sk: "splitSlash ?k = ks" using split_join[OF ks(1) real_noslash[OF ks(2)]] .
  have buf: "joinBuf [] [K, q] = ?x"
    using Kne K by simp
  have sp: "splitSlash ?x = ks @ [] # splitSlash q"
    by (simp add: splitSlash_append sk)
  have nabs: "\<not> IsAbs ?x"
    using krel by (simp add: IsAbs_append)
  have "foldl (cleanElem False) ([] @ rev ks) (splitSlash q) =
          foldl (cleanElem True) [] (splitSlash q) @ rev ks"
    by (rule fold_base) (use sb in auto)
  then have fo: "rev (foldl (cleanElem False) [] (splitSlash ?x)) = ks @ ?R"
    unfolding sp
    by (simp add: fold_push_real[OF ks(2)] normElems_def cleanElem_def)
  have jn: "joinSlash (ks @ ?R) \<noteq> []" using real_join_rel[OF ne rall] by simp
  have cl: "Clean ?x = joinSlash (ks @ ?R)"
    using nabs jn by (simp add: Clean_def Let_def fo del: foldl_append)
  have key: "ResolvePath \<lparr>mountPath = [], KeyPrefix = K\<rparr> (CHR ''/'' # q) = joinSlash (ks @ ?R)"
  proof -
    have tr: "TrimPrefix (joinSlash (ks @ ?R)) ''/'' = joinSlash (ks @ ?R)"
      using real_join_rel[OF ne rall] by (simp add: TrimPrefix_rel)
    have ia: "IsAbs (CHR ''/'' # q)" by (simp add: IsAbs_def)
    show ?thesis using Kne
      by (simp add: ResolvePath_def ia Join_def pathJoin_def TrimPrefix_abs buf cl tr
          del: joinBuf.simps)
  qed
  have ck: "Clean (joinSlash (ks @ ?R)) = joinSlash (ks @ ?R)"
    using Clean_real_join[OF ne rall] .
  have kprops: "joinSlash (ks @ ?R) \<noteq> ''.'' \<and> \<not> IsAbs (joinSlash (ks @ ?R))"
    using real_join_rel[OF ne rall] by simp
  show ?thesis
  proof (cases "?R = []")
    case True
    have np: "\<not> HasPrefix (CHR ''/'' # ?k) (CHR ''/'' # K)"
      using K by (simp add: HasPrefix_def)
    have np2: "\<not> HasPrefix ''/'' (CHR ''/'' # K)"
      using Kne by (simp add: HasPrefix_def)
    have "Clean ''//'' = ''/''" by (simp add: Clean_def IsAbs_def cleanElem_def)
    then show ?thesis unfolding key using True ck kprops np np2 Kne
      by (simp add: GetRelativePath_def Let_def TrimPrefix_def)
  next
    case False
    have j: "joinSlash (ks @ ?R) = ?k @ CHR ''/'' # joinSlash ?R"
      using joinSlash_append[OF ks(1) False] .
    have hp: "HasPrefix (CHR ''/'' # ?k @ CHR ''/'' # joinSlash ?R) (CHR ''/'' # K)"
      using K by (simp add: HasPrefix_def)
    have tp: "TrimPrefix (CHR ''/'' # ?k @ CHR ''/'' # joinSlash ?R) (CHR ''/'' # K) = joinSlash ?R"
      using hp K by (simp add: TrimPrefix_def)
    show ?thesis unfolding key using ck kprops Kne hp tp Clean_rooted_real_join[OF rR]
      by (simp add: GetRelativePath_def Let_def j)
  qed
qed

lemma core_inside:
  assumes "validKeyPrefix K" "staysBelow 0 (splitSlash q)"
  shows "GetRelativePath \<lparr>mountPath = [], KeyPrefix = K\<rparr>
           (ResolvePath \<lparr>mountPath = [], KeyPrefix = K\<rparr> (CHR ''/'' # q)) =
         CHR ''/'' # joinSlash (normElems (splitSlash q))"
proof (cases "K = []")
  case True
  then show ?thesis using core_noprefix_inside[OF assms(2)] by simp
next
  case False
  with assms(1) have hs: "HasSuffix K ''/''" and la: "list_all realElem (splitSlash (butlast K))"
    by (auto simp: validKeyPrefix_def)
  from hs False have "last K = CHR ''/''"
    by (cases K rule: rev_cases) (auto simp: HasSuffix_def)
  with False have K: "K = joinSlash (splitSlash (butlast K)) @ ''/''"
    by (simp add: join_split) (metis append_butlast_last_id)
  have r: "\<forall>x \<in> set (splitSlash (butlast K)). realElem x"
    using la by (simp add: list_all_iff)
  from core_prefix_inside[OF assms(2) splitSlash_nonempty r K] show ?thesis .
qed

lemma mount_shape:
  assumes "validMountPath m" "m \<noteq> []"
  shows "m = CHR ''/'' # joinSlash (splitSlash (tl m)) \<and>
         (\<forall>x \<in> set (splitSlash (tl m)). realElem x)"
proof -
  from assms have a: "IsAbs m" and la: "list_all realElem (splitSlash (tl m))"
    by (auto simp: validMountPath_def)
  from a obtain t where "m = CHR ''/'' # t" by (cases m) (auto simp: IsAbs_def)
  then show ?thesis using la by (simp add: join_split list_all_iff)
qed

lemma GetRelativePath_mount:
  "m \<noteq> [] \<Longrightarrow>
   GetRelativePath \<lparr>mountPath = m, KeyPrefix = K\<rparr> name =
     pathJoin [m, GetRelativePath \<lparr>mountPath = [], KeyPrefix = K\<rparr> name]"
  by (simp add: GetRelativePath_def Let_def)

lemma pathJoin_mount:
  assumes ms: "\<forall>x \<in> set ms. realElem x" "ms \<noteq> []"
      and R: "\<forall>x \<in> set R. realElem x"
  shows "pathJoin [CHR ''/'' # joinSlash ms, CHR ''/'' # joinSlash R] =
           CHR ''/'' # joinSlash (ms @ R)"
proof -
  let ?m = "CHR ''/'' # joinSlash ms"
  let ?x = "?m @ CHR ''/'' # CHR ''/'' # joinSlash R"
  have sm: "splitSlash (joinSlash ms) = ms"
    using split_join[OF ms(2) real_noslash[OF ms(1)]] .
  have fR: "filter kept (splitSlash (joinSlash R)) = R"
  proof (cases "R = []")
    case True
    then show ?thesis by (simp add: kept_def)
  next
    case False
    from split_join[OF False real_noslash[OF R]] real_filter[OF R] show ?thesis by simp
  qed
  have ndR: "''..'' \<notin> set (splitSlash (joinSlash R))"
  proof (cases "R = []")
    case True
    then show ?thesis by simp
  next
    case False
    from split_join[OF False real_noslash[OF R]] real_nodotdot[OF R] show ?thesis by simp
  qed
  have sp: "splitSlash ?x = [] # ms @ [] # splitSlash (joinSlash R)"
    using splitSlash_append[of "joinSlash ms" "CHR ''/'' # joinSlash R"] sm by simp
  have fk: "filter kept (splitSlash ?x) = ms @ R"
    unfolding sp using real_filter[OF ms(1)] fR by (simp add: kept_def)
  have nd: "noDotDot ?x"
    unfolding noDotDot_def sp using real_nodotdot[OF ms(1)] ndR by simp
  have "IsAbs ?x" by (simp add: IsAbs_def)
  from Clean_rooted[OF this nd] have "Clean ?x = CHR ''/'' # joinSlash (ms @ R)"
    unfolding fk .
  then show ?thesis by (simp add: pathJoin_def)
qed

lemma Clean_slash: "Clean ''/'' = ''/''"
  by (simp add: Clean_def IsAbs_def cleanElem_def)

lemma ResolvePath_mount_root:
  "m \<noteq> [] \<Longrightarrow>
   ResolvePath \<lparr>mountPath = m, KeyPrefix = K\<rparr> m =
     ResolvePath \<lparr>mountPath = [], KeyPrefix = K\<rparr> ''/''"
  by (simp add: ResolvePath_def TrimPrefix_def HasPrefix_def IsAbs_def Clean_slash)

lemma ResolvePath_mount_below:
  "m \<noteq> [] \<Longrightarrow>
   ResolvePath \<lparr>mountPath = m, KeyPrefix = K\<rparr> (m @ CHR ''/'' # q) =
     ResolvePath \<lparr>mountPath = [], KeyPrefix = K\<rparr> (CHR ''/'' # q)"
  by (simp add: ResolvePath_def TrimPrefix_def HasPrefix_def IsAbs_def)

lemma roundtrip_inside:
  assumes vk: "validKeyPrefix K" and vm: "validMountPath m" and um: "underMount m p"
      and ab: "IsAbs p" and br: "belowRoot m p"
  shows "GetRelativePath \<lparr>mountPath = m, KeyPrefix = K\<rparr>
           (ResolvePath \<lparr>mountPath = m, KeyPrefix = K\<rparr> p) = Clean p"
proof (cases "m = []")
  case True
  from ab obtain q where p: "p = CHR ''/'' # q" by (cases p) (auto simp: IsAbs_def)
  have sbq: "staysBelow 0 (splitSlash q)" using br p True by (simp add: belowRoot_def)
  have "normElems (splitSlash p) = normElems (splitSlash q)"
    using p by (simp add: normElems_def cleanElem_def)
  then have "Clean p = CHR ''/'' # joinSlash (normElems (splitSlash q))"
    using Clean_abs[OF ab] by simp
  then show ?thesis using core_inside[OF vk sbq] True p by simp
next
  case False
  let ?ms = "splitSlash (tl m)"
  from mount_shape[OF vm False] have m: "m = CHR ''/'' # joinSlash ?ms"
    and rms: "\<forall>x \<in> set ?ms. realElem x" by auto
  have mne: "?ms \<noteq> []" by (rule splitSlash_nonempty)
  have sm: "splitSlash (joinSlash ?ms) = ?ms" by (simp add: join_split)
  from um False consider (root) "p = m" | (below) q where "p = m @ CHR ''/'' # q"
    by (auto simp: underMount_def HasPrefix_def) (metis append_take_drop_id append_Cons append_Nil append.assoc)
  then show ?thesis
  proof cases
    case root
    have c: "GetRelativePath \<lparr>mountPath = [], KeyPrefix = K\<rparr>
           (ResolvePath \<lparr>mountPath = [], KeyPrefix = K\<rparr> ''/'') = CHR ''/'' # joinSlash []"
      using core_inside[OF vk, of "[]"] by (simp add: normElems_empty)
    have "pathJoin [m, CHR ''/'' # joinSlash []] = CHR ''/'' # joinSlash (?ms @ [])"
      using pathJoin_mount[OF rms mne, of "[]"] m by simp
    moreover have "Clean p = m"
      using Clean_rooted_real_join[OF rms] m root by simp
    ultimately show ?thesis
      using root False c m
      by (simp only: GetRelativePath_mount[OF False] ResolvePath_mount_root[OF False]) simp
  next
    case below
    have spp: "splitSlash p = [] # ?ms @ splitSlash q"
      using below m splitSlash_append[of "joinSlash ?ms" q] sm
      by (metis append_Cons splitSlash.simps(2) append_Nil)
    have "drop (length m) p = CHR ''/'' # q" using below by simp
    then have sbq: "staysBelow 0 (splitSlash q)" using br by (simp add: belowRoot_def)
    let ?R = "normElems (splitSlash q)"
    have rR: "\<forall>x \<in> set ?R. realElem x" by (rule normElems_real)
    have c: "GetRelativePath \<lparr>mountPath = [], KeyPrefix = K\<rparr>
           (ResolvePath \<lparr>mountPath = [], KeyPrefix = K\<rparr> (CHR ''/'' # q)) =
             CHR ''/'' # joinSlash ?R"
      using core_inside[OF vk sbq] .
    have pj: "pathJoin [m, CHR ''/'' # joinSlash ?R] = CHR ''/'' # joinSlash (?ms @ ?R)"
      using pathJoin_mount[OF rms mne rR] m by simp
    have "foldl (cleanElem True) ([] @ rev ?ms) (splitSlash q) =
            foldl (cleanElem True) [] (splitSlash q) @ rev ?ms"
      by (rule fold_base) (use sbq in auto)
    then have "normElems (splitSlash p) = ?ms @ ?R"
      unfolding spp by (simp add: normElems_def fold_push_real[OF rms] cleanElem_def)
    with Clean_abs[OF ab] have "Clean p = CHR ''/'' # joinSlash (?ms @ ?R)" by simp
    then show ?thesis
      using below False c pj
      by (simp only: GetRelativePath_mount[OF False] ResolvePath_mount_below[OF False])
  qed
qed

lemma outside_prefix:
  assumes "K \<noteq> []" "\<not> HasPrefix (cleanAbs name) (CHR ''/'' # K)" "validMountPath m"
  shows "GetRelativePath \<lparr>mountPath = m, KeyPrefix = K\<rparr> name =
           (if m = [] then ''/'' else m)"
proof -
  have np: "\<not> HasPrefix ''/'' (CHR ''/'' # K)" using assms(1) by (simp add: HasPrefix_def)
  have "Clean ''//'' = ''/''" by (simp add: Clean_def IsAbs_def cleanElem_def)
  then have g: "GetRelativePath \<lparr>mountPath = [], KeyPrefix = K\<rparr> name = ''/''"
    using assms(1,2) np
    by (simp add: GetRelativePath_def cleanAbs_def Let_def TrimPrefix_def)
  show ?thesis
  proof (cases "m = []")
    case True
    then show ?thesis using g by simp
  next
    case False
    from mount_shape[OF assms(3) False] have m: "m = CHR ''/'' # joinSlash (splitSlash (tl m))"
      and rms: "\<forall>x \<in> set (splitSlash (tl m)). realElem x" by auto
    have "pathJoin [m, CHR ''/'' # joinSlash []] = CHR ''/'' # joinSlash (splitSlash (tl m) @ [])"
      using pathJoin_mount[OF rms splitSlash_nonempty, of "[]"] m by simp
    then have "pathJoin [m, ''/''] = m" using m by simp
    then show ?thesis using False g by (simp add: GetRelativePath_mount[OF False])
  qed
qed

lemmas path_defs =
  GetRelativePath_def ResolvePath_def Join_def pathJoin_def Clean_def cleanElem_def IsAbs_def
  TrimPrefix_def HasPrefix_def HasSuffix_def Let_def

text \<open>
  C1, as stated, fails. Without a mount path and with the key prefix \<^verbatim>\<open>prefix/\<close>, the
  path \<^verbatim>\<open>/../prefix/a\<close> resolves to the key \<^verbatim>\<open>prefix/a\<close>, which is under the key
  prefix, and is relativized to \<^verbatim>\<open>/a\<close>, while its cleaned form is \<^verbatim>\<open>/prefix/a\<close>:
  an absolute path is not cleaned before it is joined to the key prefix. And with the
  mount path \<^verbatim>\<open>/vdir\<close>, a name outside the key prefix is relativized to \<^verbatim>\<open>/vdir\<close>,
  not to \<^verbatim>\<open>/\<close>.
\<close>

theorem GetRelativePath_ResolvePath_counterexample:
  "ResolvePath \<lparr>mountPath = [], KeyPrefix = ''prefix/''\<rparr> ''/../prefix/a'' = ''prefix/a'' \<and>
   HasPrefix ''prefix/a'' ''prefix/'' \<and>
   GetRelativePath \<lparr>mountPath = [], KeyPrefix = ''prefix/''\<rparr>
     (ResolvePath \<lparr>mountPath = [], KeyPrefix = ''prefix/''\<rparr> ''/../prefix/a'') = ''/a'' \<and>
   Clean ''/../prefix/a'' = ''/prefix/a'' \<and>
   GetRelativePath \<lparr>mountPath = ''/vdir'', KeyPrefix = ''prefix/''\<rparr> ''other/x'' = ''/vdir''"
  by (simp add: path_defs)

text \<open>
  C1, amended. For a key prefix that is empty or a relative path of real elements
  followed by a slash, and a mount path that is empty or an absolute path of real
  elements: every absolute virtual path \<open>p\<close> that is the mount path or lies below it,
  and whose \<^verbatim>\<open>..\<close> elements never climb above the mount root, satisfies
  GetRelativePath(ResolvePath(p)) = Clean(p); and every name whose cleaned absolute
  form does not start with the slash and the (non-empty) key prefix is relativized to
  the root of this backend, \<^verbatim>\<open>/\<close> without a mount path and the mount path otherwise.
\<close>

theorem GetRelativePath_ResolvePath:
  "(validKeyPrefix K \<and> validMountPath m \<and> underMount m p \<and> IsAbs p \<and> belowRoot m p \<longrightarrow>
      GetRelativePath \<lparr>mountPath = m, KeyPrefix = K\<rparr>
        (ResolvePath \<lparr>mountPath = m, KeyPrefix = K\<rparr> p) = Clean p) \<and>
   (K \<noteq> [] \<and> \<not> HasPrefix (cleanAbs name) (CHR ''/'' # K) \<and> validMountPath m \<longrightarrow>
      GetRelativePath \<lparr>mountPath = m, KeyPrefix = K\<rparr> name = (if m = [] then ''/'' else m))"
  using roundtrip_inside[of K m p] outside_prefix[of K name m] by blast

theorem GetRelativePath_ResolvePath_witness:
  "GetRelativePath \<lparr>mountPath = ''/vdir'', KeyPrefix = ''prefix/''\<rparr>
     (ResolvePath \<lparr>mountPath = ''/vdir'', KeyPrefix = ''prefix/''\<rparr> ''/vdir/a/../b//./c/'') =
     ''/vdir/b/c'' \<and>
   ResolvePath \<lparr>mountPath = ''/vdir'', KeyPrefix = ''prefix/''\<rparr> ''/vdir/a/../b//./c/'' =
     ''prefix/b/c'' \<and>
   GetRelativePath \<lparr>mountPath = [], KeyPrefix = ''prefix/''\<rparr> ''other/x'' = ''/''"
proof -
  have vk: "validKeyPrefix ''prefix/''"
    by (simp add: validKeyPrefix_def HasSuffix_def realElem_def)
  have vm: "validMountPath ''/vdir''"
    by (simp add: validMountPath_def IsAbs_def realElem_def)
  have vm0: "validMountPath []" by (simp add: validMountPath_def)
  have um: "underMount ''/vdir'' ''/vdir/a/../b//./c/''"
    by (simp add: underMount_def HasPrefix_def)
  have ab: "IsAbs ''/vdir/a/../b//./c/''" by (simp add: IsAbs_def)
  have br: "belowRoot ''/vdir'' ''/vdir/a/../b//./c/''" by (simp add: belowRoot_def)
  have cl: "Clean ''/vdir/a/../b//./c/'' = ''/vdir/b/c''"
    by (simp add: Clean_def cleanElem_def IsAbs_def)
  have rp: "ResolvePath \<lparr>mountPath = ''/vdir'', KeyPrefix = ''prefix/''\<rparr> ''/vdir/a/../b//./c/'' =
     ''prefix/b/c''"
    by (simp add: path_defs)
  have ne: "''prefix/'' \<noteq> []" by simp
  have out: "\<not> HasPrefix (cleanAbs ''other/x'') (CHR ''/'' # ''prefix/'')"
    by (simp add: cleanAbs_def Clean_def cleanElem_def IsAbs_def HasPrefix_def)
  from GetRelativePath_ResolvePath[of "''prefix/''" "''/vdir''" "''/vdir/a/../b//./c/''"]
    vk vm um ab br cl
  have a: "GetRelativePath \<lparr>mountPath = ''/vdir'', KeyPrefix = ''prefix/''\<rparr>
     (ResolvePath \<lparr>mountPath = ''/vdir'', KeyPrefix = ''prefix/''\<rparr> ''/vdir/a/../b//./c/'') =
     ''/vdir/b/c''"
    by simp
  from GetRelativePath_ResolvePath[of "''prefix/''" "[]" _ "''other/x''"] ne out vm0
  have b: "GetRelativePath \<lparr>mountPath = [], KeyPrefix = ''prefix/''\<rparr> ''other/x'' = ''/''"
    by simp
  from a rp b show ?thesis by simp
qed

end
